theory Spec2Isabelle
  imports Complex_Main "HOL-Library.Log_Nat"
begin

section \<open>JavaScript numbers and values\<close>

text \<open>
  The slider of \<^verbatim>\<open>script.js\<close> computes with JavaScript numbers and, on the text-input
  path, with strings. A number is a binary double: a finite double is the rational it
  denotes, next to the three non-finite numbers. Addition, subtraction, multiplication
  and division round their exact result to the nearest double, a tie going to the even
  significand, as IEEE 754 prescribes; the remainder and \<^verbatim>\<open>Math.round\<close> are exact. The
  sign of zero is not modelled.
\<close>

datatype jsnum = Fin rat | PInf | NInf | NaN

datatype jsval = Num jsnum | Str string | Undefined

abbreviation N :: "rat \<Rightarrow> jsval" where
  "N x \<equiv> Num (Fin x)"

subsection \<open>Rounding to the nearest double\<close>

text \<open>The nearest integer, a tie going to the even one.\<close>

definition rne :: "rat \<Rightarrow> int" where
  "rne y = (let f = \<lfloor>y\<rfloor>; d = y - of_int f
            in if d < 1 / 2 then f else if 1 / 2 < d then f + 1
               else if even f then f else f + 1)"

text \<open>
  The same rounding of a fraction of two integers with a positive denominator, by
  integer division; \<open>rne_frac\<close> is what the evaluation of \<open>rd_pos\<close> runs.
\<close>

definition rne_frac :: "int \<Rightarrow> int \<Rightarrow> int" where
  "rne_frac a b = (let f = a div b; r = a mod b
                   in if 2 * r < b then f else if b < 2 * r then f + 1
                      else if even f then f else f + 1)"

text \<open>
  The binary logarithm of a positive rational, rounded down, from the bit lengths of its
  numerator and denominator.
\<close>

definition ilog2 :: "rat \<Rightarrow> int" where
  "ilog2 x = (let (p, q) = quotient_of x; c = bitlen p - bitlen q
              in if 2 powi c \<le> x then c else c - 1)"

text \<open>
  The exponent of the last place of the doubles around a positive \<open>x\<close>: 53 significant
  bits, and never below the exponent \<open>-1074\<close> of the subnormal numbers.
\<close>

definition expo :: "rat \<Rightarrow> int" where
  "expo x = max (ilog2 x - 52) (- 1074)"

text \<open>
  The rounding of a rational, before the test for overflow: the quotient by the unit
  in the last place is rounded to an integer. A negative number is rounded as its
  magnitude is.
\<close>

definition rd_pos :: "rat \<Rightarrow> rat" where
  "rd_pos x = (if x = 0 then 0 else of_int (rne (x / 2 powi expo x)) * 2 powi expo x)"

definition rd :: "rat \<Rightarrow> rat" where
  "rd x = (if x < 0 then - rd_pos (- x) else rd_pos x)"

text \<open>
  A rounded magnitude that reaches \<open>2 ^ 1024\<close>, written out here, is infinite.
\<close>

definition overflow_bound :: rat where
  "overflow_bound =
     179769313486231590772930519078902473361797697894230657273430081157732675805500963132708477322407536021120113879871393357658789768814416622492847430639474124377767893424865485276302219601246094119453082952085005768838150682342462881473913110540827237163350510684586298239947245938479716304835356329624224137216"

definition fl :: "rat \<Rightarrow> jsnum" where
  "fl x = (let r = rd x
           in if overflow_bound \<le> r then PInf
              else if r \<le> - overflow_bound then NInf
              else Fin r)"

text \<open>A rational is a double when rounding leaves it as it is.\<close>

definition is_double :: "rat \<Rightarrow> bool" where
  "is_double x = (fl x = Fin x)"

subsection \<open>The operators\<close>

text \<open>Relational comparison of two numbers: every comparison with \<open>NaN\<close> is false.\<close>

fun num_lt :: "jsnum \<Rightarrow> jsnum \<Rightarrow> bool" where
  "num_lt (Fin x) (Fin y) = (x < y)"
| "num_lt (Fin x) PInf = True"
| "num_lt NInf (Fin y) = True"
| "num_lt NInf PInf = True"
| "num_lt _ _ = False"

text \<open>The sign of a number that is not \<open>NaN\<close>, as \<open>-1\<close>, \<open>0\<close> or \<open>1\<close>.\<close>

fun num_sgn :: "jsnum \<Rightarrow> int" where
  "num_sgn (Fin x) = (if x < 0 then -1 else if x = 0 then 0 else 1)"
| "num_sgn PInf = 1"
| "num_sgn NInf = -1"
| "num_sgn NaN = 0"

definition num_inf :: "int \<Rightarrow> jsnum" where
  "num_inf s = (if s < 0 then NInf else PInf)"

fun num_add :: "jsnum \<Rightarrow> jsnum \<Rightarrow> jsnum" where
  "num_add (Fin x) (Fin y) = fl (x + y)"
| "num_add NaN _ = NaN"
| "num_add _ NaN = NaN"
| "num_add PInf NInf = NaN"
| "num_add NInf PInf = NaN"
| "num_add PInf _ = PInf"
| "num_add NInf _ = NInf"
| "num_add _ PInf = PInf"
| "num_add _ NInf = NInf"

fun num_neg :: "jsnum \<Rightarrow> jsnum" where
  "num_neg (Fin x) = Fin (- x)"
| "num_neg PInf = NInf"
| "num_neg NInf = PInf"
| "num_neg NaN = NaN"

definition num_sub :: "jsnum \<Rightarrow> jsnum \<Rightarrow> jsnum" where
  "num_sub a b = num_add a (num_neg b)"

fun num_mul :: "jsnum \<Rightarrow> jsnum \<Rightarrow> jsnum" where
  "num_mul (Fin x) (Fin y) = fl (x * y)"
| "num_mul NaN _ = NaN"
| "num_mul _ NaN = NaN"
| "num_mul a b =
     (if num_sgn a = 0 \<or> num_sgn b = 0 then NaN else num_inf (num_sgn a * num_sgn b))"

fun num_div :: "jsnum \<Rightarrow> jsnum \<Rightarrow> jsnum" where
  "num_div NaN _ = NaN"
| "num_div _ NaN = NaN"
| "num_div (Fin x) (Fin y) =
     (if y = 0 then (if x = 0 then NaN else num_inf (num_sgn (Fin x))) else fl (x / y))"
| "num_div (Fin x) _ = Fin 0"
| "num_div a (Fin y) = num_inf (if y < 0 then - num_sgn a else num_sgn a)"
| "num_div _ _ = NaN"

text \<open>
  The remainder operator \<^verbatim>\<open>%\<close> truncates the quotient towards zero, so the result has
  the sign of the dividend; a zero divisor and an infinite dividend give \<open>NaN\<close>. The
  remainder of two doubles is a double, so nothing is rounded.
\<close>

definition trunc :: "rat \<Rightarrow> int" where
  "trunc q = (if 0 \<le> q then \<lfloor>q\<rfloor> else \<lceil>q\<rceil>)"

fun num_rem :: "jsnum \<Rightarrow> jsnum \<Rightarrow> jsnum" where
  "num_rem (Fin x) (Fin y) = (if y = 0 then NaN else Fin (x - y * of_int (trunc (x / y))))"
| "num_rem NaN _ = NaN"
| "num_rem _ NaN = NaN"
| "num_rem (Fin x) _ = Fin x"
| "num_rem _ _ = NaN"

text \<open>
  \<^verbatim>\<open>Math.round\<close> gives the nearest integer, a tie towards plus infinity; of a double
  it is a double.
\<close>

fun num_round :: "jsnum \<Rightarrow> jsnum" where
  "num_round (Fin x) = Fin (of_int \<lfloor>x + 1 / 2\<rfloor>)"
| "num_round a = a"

text \<open>
  The conversion of a value to a number. The only strings this development produces
  come out of the digit filter of the text inputs, so the conversion of a string is
  written out for strings of decimal digits (the empty string is \<open>0\<close>, a long one
  is rounded to a double); any other string is taken to \<open>NaN\<close>.
\<close>

definition is_digit :: "char \<Rightarrow> bool" where
  "is_digit c = (48 \<le> (of_char c :: nat) \<and> (of_char c :: nat) \<le> 57)"

definition digits_value :: "string \<Rightarrow> nat" where
  "digits_value s = foldl (\<lambda>a c. 10 * a + ((of_char c :: nat) - 48)) 0 s"

fun to_number :: "jsval \<Rightarrow> jsnum" where
  "to_number (Num n) = n"
| "to_number (Str s) = (if list_all is_digit s then fl (of_nat (digits_value s)) else NaN)"
| "to_number Undefined = NaN"

text \<open>Strings compare by their code units, position by position.\<close>

fun str_lt :: "string \<Rightarrow> string \<Rightarrow> bool" where
  "str_lt [] [] = False"
| "str_lt [] (y # ys) = True"
| "str_lt (x # xs) [] = False"
| "str_lt (x # xs) (y # ys) =
     (if (of_char x :: nat) < of_char y then True
      else if (of_char y :: nat) < of_char x then False
      else str_lt xs ys)"

text \<open>
  The operators of the source on values: \<^verbatim>\<open><\<close> and \<^verbatim>\<open>>\<close> compare two strings as
  strings and anything else as numbers; \<^verbatim>\<open>%\<close>, \<^verbatim>\<open>/\<close>, \<^verbatim>\<open>*\<close> and \<^verbatim>\<open>-\<close> convert both
  operands to numbers; \<^verbatim>\<open>===\<close> never converts.
\<close>

fun js_lt :: "jsval \<Rightarrow> jsval \<Rightarrow> bool" where
  "js_lt (Str a) (Str b) = str_lt a b"
| "js_lt a b = num_lt (to_number a) (to_number b)"

definition js_gt :: "jsval \<Rightarrow> jsval \<Rightarrow> bool" where
  "js_gt a b = js_lt b a"

definition js_le :: "jsval \<Rightarrow> jsval \<Rightarrow> bool" where
  "js_le a b = (case (a, b) of
       (Str x, Str y) \<Rightarrow> \<not> str_lt y x
     | _ \<Rightarrow> to_number a \<noteq> NaN \<and> to_number b \<noteq> NaN \<and> \<not> num_lt (to_number b) (to_number a))"

definition js_rem :: "jsval \<Rightarrow> jsval \<Rightarrow> jsval" where
  "js_rem a b = Num (num_rem (to_number a) (to_number b))"

definition js_div :: "jsval \<Rightarrow> jsval \<Rightarrow> jsval" where
  "js_div a b = Num (num_div (to_number a) (to_number b))"

definition js_mul :: "jsval \<Rightarrow> jsval \<Rightarrow> jsval" where
  "js_mul a b = Num (num_mul (to_number a) (to_number b))"

definition js_sub :: "jsval \<Rightarrow> jsval \<Rightarrow> jsval" where
  "js_sub a b = Num (num_sub (to_number a) (to_number b))"

definition Math_round :: "jsval \<Rightarrow> jsval" where
  "Math_round a = Num (num_round (to_number a))"

fun js_strict_eq :: "jsval \<Rightarrow> jsval \<Rightarrow> bool" where
  "js_strict_eq (Num a) (Num b) = (a \<noteq> NaN \<and> a = b)"
| "js_strict_eq (Str a) (Str b) = (a = b)"
| "js_strict_eq Undefined Undefined = True"
| "js_strict_eq _ _ = False"

section \<open>The slider\<close>

text \<open>
  \<^verbatim>\<open>this.options\<close> after the constructor has merged the defaults: the bounds, the step
  and the optional number of segments. The numbers of the options are doubles.
\<close>

record slidy_options =
  opt_min :: rat
  opt_max :: rat
  opt_step :: rat
  opt_segmentsCount :: "rat option"

text \<open>\<^verbatim>\<open>#normalizeMinMax\<close>: clamp, then align to a multiple of the step.\<close>

definition normalizeMinMax :: "slidy_options \<Rightarrow> jsval \<Rightarrow> jsval" where
  "normalizeMinMax opts v =
     (if js_lt v (N (opt_min opts)) then N (opt_min opts)
      else if js_gt v (N (opt_max opts)) then N (opt_max opts)
      else if js_strict_eq (js_rem v (N (opt_step opts))) (N 0) then v
      else js_mul (Math_round (js_div v (N (opt_step opts)))) (N (opt_step opts)))"

text \<open>
  The state of a \<^verbatim>\<open>Slidy\<close>: the options, the stored values, and what the presentation
  surfaces hold. A text input holds the value last assigned to its \<^verbatim>\<open>value\<close>; a style
  hook holds the percentage \<open>p\<close> of the template \<^verbatim>\<open>`${p}%`\<close>, and \<open>None\<close> while it was
  never set. \<open>has_max\<close> tells whether \<^verbatim>\<open>#init\<close> created \<^verbatim>\<open>maxInput\<close> and \<^verbatim>\<open>maxButton\<close>;
  their fields mean nothing without them. \<open>segments\<close> are the boundary values captured
  by the click handlers of the segment buttons.
\<close>

record slidy =
  options :: slidy_options
  "values" :: "jsval list"
  has_max :: bool
  minInput :: jsval
  maxInput :: jsval
  minButton_left :: "jsnum option"
  maxButton_left :: "jsnum option"
  track_min_left :: "jsnum option"
  track_max_left :: "jsnum option"
  segments :: "jsnum list"

datatype error = ConfigError string | TypeError

text \<open>Reading an array element: \<^verbatim>\<open>undefined\<close> beyond the end.\<close>

definition js_index :: "jsval list \<Rightarrow> nat \<Rightarrow> jsval" where
  "js_index xs i = (if i < length xs then xs ! i else Undefined)"

text \<open>The percentage of a value on the track, as \<^verbatim>\<open>#updateTrack\<close> computes it.\<close>

definition percent_of :: "slidy_options \<Rightarrow> jsval \<Rightarrow> jsnum" where
  "percent_of opts v =
     num_mul (num_div (num_sub (to_number v) (Fin (opt_min opts)))
                      (num_sub (Fin (opt_max opts)) (Fin (opt_min opts))))
             (Fin 100)"

text \<open>
  \<^verbatim>\<open>#updateTrack\<close>. With two values it writes to \<^verbatim>\<open>this.maxButton.style\<close>, which throws
  a TypeError when the button was never created.
\<close>

definition updateTrack :: "slidy \<Rightarrow> error + slidy" where
  "updateTrack s =
     (let minPercent = percent_of (options s) (js_index (values s) 0);
          s1 = s\<lparr>minButton_left := Some minPercent,
                 track_min_left := Some (Fin 0),
                 track_max_left := Some minPercent\<rparr>
      in if length (values s) = 2 then
           (let maxPercent = percent_of (options s) (js_index (values s) 1)
            in if has_max s then
                 Inr (s1\<lparr>maxButton_left := Some maxPercent,
                         track_min_left := Some minPercent,
                         track_max_left := Some maxPercent\<rparr>)
               else Inl TypeError)
         else Inr s1)"

text \<open>
  \<^verbatim>\<open>updateValues\<close>: normalize every value, move the first of two behind the second when
  it is the greater (\<^verbatim>\<open>shift\<close> then \<^verbatim>\<open>push\<close>), rewrite the inputs, update the track.
\<close>

definition updateValues :: "slidy \<Rightarrow> jsval list \<Rightarrow> error + slidy" where
  "updateValues s vals =
     (let vs1 = map (normalizeMinMax (options s)) vals;
          vs2 = (if length vs1 = 2 \<and> js_gt (js_index vs1 0) (js_index vs1 1)
                 then tl vs1 @ [hd vs1] else vs1);
          s1 = s\<lparr>values := vs2, minInput := js_index vs2 0\<rparr>
      in if length vs2 = 2 then
           (if has_max s then updateTrack (s1\<lparr>maxInput := js_index vs2 1\<rparr>)
            else Inl TypeError)
         else updateTrack s1)"

text \<open>\<^verbatim>\<open>this.values[0] = newValue\<close>: an assignment to index 0 of an empty array extends it.\<close>

fun set_first :: "jsval list \<Rightarrow> jsval \<Rightarrow> jsval list" where
  "set_first [] v = [v]"
| "set_first (x # xs) v = v # xs"

definition updateMin :: "slidy \<Rightarrow> jsval \<Rightarrow> error + slidy" where
  "updateMin s newValue = updateValues s (set_first (values s) newValue)"

definition updateMax :: "slidy \<Rightarrow> jsval \<Rightarrow> error + slidy" where
  "updateMax s newValue =
     (if length (values s) \<noteq> 2 then Inr s
      else updateValues s ((values s)[1 := newValue]))"

subsection \<open>The input channels\<close>

text \<open>
  The text inputs, the drag of a button and the click on a segment follow. The
  \<^verbatim>\<open>keydown\<close> listener of the buttons is not part of this development.
\<close>

text \<open>
  The \<^verbatim>\<open>input\<close> listener of \<^verbatim>\<open>#createInput(isMax)\<close>: the text of the field without its
  non-digit characters goes to \<^verbatim>\<open>#updateMax\<close> or \<^verbatim>\<open>#updateMin\<close> as it is, a string.
  \<^verbatim>\<open>#init\<close> creates both inputs by \<^verbatim>\<open>this.#createInput()\<close>, that is with \<open>isMax = False\<close>.
\<close>

definition createInput_oninput :: "bool \<Rightarrow> slidy \<Rightarrow> string \<Rightarrow> error + slidy" where
  "createInput_oninput isMax s text =
     (let newValue = Str (filter is_digit text)
      in if isMax then updateMax s newValue else updateMin s newValue)"

definition minInput_oninput :: "slidy \<Rightarrow> string \<Rightarrow> error + slidy" where
  "minInput_oninput = createInput_oninput False"

definition maxInput_oninput :: "slidy \<Rightarrow> string \<Rightarrow> error + slidy" where
  "maxInput_oninput = createInput_oninput False"

text \<open>
  The callback \<^verbatim>\<open>#createButton(isMax)\<close> gives to its \<^verbatim>\<open>Draggable\<close>: the percentage is
  mapped linearly onto the range and rounded.
\<close>

definition drag_value :: "slidy_options \<Rightarrow> jsnum \<Rightarrow> jsval" where
  "drag_value opts currentPercentage =
     Math_round (Num (num_add (Fin (opt_min opts))
        (num_mul (num_sub (Fin (opt_max opts)) (Fin (opt_min opts)))
                 (num_div currentPercentage (Fin 100)))))"

definition createButton_ondrag :: "bool \<Rightarrow> slidy \<Rightarrow> jsnum \<Rightarrow> error + slidy" where
  "createButton_ondrag isMax s currentPercentage =
     (let newValue = drag_value (options s) currentPercentage
      in if isMax then updateMax s newValue else updateMin s newValue)"


subsection \<open>Construction\<close>

text \<open>
  The loop of \<^verbatim>\<open>#init\<close> over the segment boundaries,
  \<^verbatim>\<open>for (let i = min; i <= max; i += d)\<close>, collecting the value each button captures.
  It does not return when \<open>i\<close> never passes \<open>max\<close>; this is the result \<open>None\<close>.
\<close>

definition num_le :: "jsnum \<Rightarrow> jsnum \<Rightarrow> bool" where
  "num_le a b = (a \<noteq> NaN \<and> b \<noteq> NaN \<and> \<not> num_lt b a)"

partial_function (option) segments_loop ::
  "jsnum \<Rightarrow> jsnum \<Rightarrow> jsnum \<Rightarrow> jsnum list \<Rightarrow> jsnum list option" where
  "segments_loop i mx d acc =
     (if num_le i mx then segments_loop (num_add i d) mx d (acc @ [i]) else Some acc)"

declare segments_loop.simps [code]

text \<open>
  \<^verbatim>\<open>#init\<close>. \<open>found\<close> tells whether \<^verbatim>\<open>document.querySelector\<close> returned an element;
  appending to \<^verbatim>\<open>null\<close> throws a TypeError. The created elements carry no state beyond
  the fields of the record.
\<close>

definition init :: "bool \<Rightarrow> slidy \<Rightarrow> (error + slidy) option" where
  "init found s0 =
     (let s1 = s0\<lparr>has_max := (length (values s0) = 2)\<rparr>
      in if \<not> found then Some (Inl TypeError)
         else (case opt_segmentsCount (options s1) of
                 None \<Rightarrow> Some (updateValues s1 (values s1))
               | Some c \<Rightarrow>
                   if c = 0 then Some (updateValues s1 (values s1))
                   else (case segments_loop (Fin (opt_min (options s1)))
                                (Fin (opt_max (options s1)))
                                (num_div (num_sub (Fin (opt_max (options s1)))
                                                  (Fin (opt_min (options s1))))
                                         (num_sub (Fin c) (Fin 1)))
                                [] of
                           None \<Rightarrow> None
                         | Some segs \<Rightarrow>
                             Some (updateValues (s1\<lparr>segments := segs\<rparr>) (values s1)))))"

text \<open>
  The \<^verbatim>\<open>options\<close> argument of the constructor: a key that is absent is \<open>None\<close>.
  \<^verbatim>\<open>defaultValue\<close> may be given as something else than an array.
\<close>

datatype js_array = NotArray | Array "jsval list"

record raw_options =
  min_opt :: "rat option"
  max_opt :: "rat option"
  step_opt :: "rat option"
  segmentsCount_opt :: "rat option"
  defaultValue_opt :: "js_array option"

text \<open>
  A default of the literal \<^verbatim>\<open>{min: options.min || 0, ..., ...options}\<close>: the spread comes
  last, so a key that is present keeps its value, whatever \<^verbatim>\<open>||\<close> chose before.
\<close>

definition or_default :: "rat option \<Rightarrow> rat \<Rightarrow> rat" where
  "or_default given dflt =
     (let before_spread = (case given of None \<Rightarrow> dflt | Some x \<Rightarrow> if x = 0 then dflt else x)
      in case given of None \<Rightarrow> before_spread | Some x \<Rightarrow> x)"

definition merge_options :: "raw_options \<Rightarrow> slidy_options" where
  "merge_options opts =
     \<lparr>opt_min = or_default (min_opt opts) 0,
      opt_max = or_default (max_opt opts) 100,
      opt_step = or_default (step_opt opts) 1,
      opt_segmentsCount = segmentsCount_opt opts\<rparr>"

definition blank :: "slidy_options \<Rightarrow> jsval list \<Rightarrow> slidy" where
  "blank opts vals =
     \<lparr>options = opts, values = vals, has_max = False,
      minInput = Str [], maxInput = Str [],
      minButton_left = None, maxButton_left = None,
      track_min_left = None, track_max_left = None,
      segments = []\<rparr>"

text \<open>
  The constructor of \<^verbatim>\<open>Slidy\<close>. \<^verbatim>\<open>containerSelector\<close> is \<open>None\<close> for \<^verbatim>\<open>null\<close>; the empty
  string is falsy as well. The four checks run in the order of the source, before
  \<^verbatim>\<open>#init\<close> builds anything.
\<close>

definition Slidy :: "string option \<Rightarrow> bool \<Rightarrow> raw_options \<Rightarrow> (error + slidy) option" where
  "Slidy containerSelector found opts =
     (if containerSelector = None \<or> containerSelector = Some [] then
        Some (Inl (ConfigError ''Slidy: containerSelector is required''))
      else if (case defaultValue_opt opts of
                 None \<Rightarrow> False
               | Some NotArray \<Rightarrow> True
               | Some (Array xs) \<Rightarrow> length xs < 1 \<or> length xs > 2) then
        Some (Inl (ConfigError ''Slidy: defaultValue must be an array of length 1 or 2''))
      else if (case (min_opt opts, max_opt opts) of
                 (Some a, Some b) \<Rightarrow> a \<ge> b
               | _ \<Rightarrow> False) then
        Some (Inl (ConfigError ''Slidy: min must be less than max''))
      else if (case segmentsCount_opt opts of None \<Rightarrow> False | Some c \<Rightarrow> c < 2) then
        Some (Inl (ConfigError ''Slidy: segmentsCount must be greater than 2''))
      else init found (blank (merge_options opts)
             (case defaultValue_opt opts of Some (Array xs) \<Rightarrow> xs | _ \<Rightarrow> [N 0])))"

subsection \<open>The drag gesture\<close>

text \<open>
  A \<^verbatim>\<open>Draggable\<close>: the flag, the last offset, and the number of animation frames it has
  requested.
\<close>

record draggable =
  isDragging :: bool
  currentX :: rat
  requested :: nat

definition new_Draggable :: draggable where
  "new_Draggable = \<lparr>isDragging = False, currentX = 0, requested = 0\<rparr>"

definition handleMouseDown :: "draggable \<Rightarrow> draggable" where
  "handleMouseDown d = d\<lparr>isDragging := True\<rparr>"

text \<open>\<open>pageX\<close> is the pointer's position, \<open>width\<close> the rendered width of the element.\<close>

definition handleMouseMove :: "draggable \<Rightarrow> rat \<Rightarrow> rat \<Rightarrow> draggable" where
  "handleMouseMove d pageX width =
     (if \<not> isDragging d then d
      else d\<lparr>currentX := pageX - width, requested := Suc (requested d)\<rparr>)"

definition handleMouseUp :: "draggable \<Rightarrow> draggable" where
  "handleMouseUp d = d\<lparr>isDragging := False\<rparr>"

text \<open>
  \<^verbatim>\<open>updatePosition\<close>, run by an animation frame on the button \<open>isMax\<close> selects: the
  percentage of the offset in the width of the parent goes to the style hook of the
  button, and then to the callback of the slider.
\<close>

definition locationPercent :: "draggable \<Rightarrow> rat \<Rightarrow> jsnum" where
  "locationPercent d parent_width =
     num_mul (num_div (Fin (currentX d)) (Fin parent_width)) (Fin 100)"

definition updatePosition :: "bool \<Rightarrow> draggable \<Rightarrow> rat \<Rightarrow> slidy \<Rightarrow> error + slidy" where
  "updatePosition isMax d parent_width s =
     (let p = locationPercent d parent_width;
          s1 = (if isMax then s\<lparr>maxButton_left := Some p\<rparr> else s\<lparr>minButton_left := Some p\<rparr>)
      in createButton_ondrag isMax s1 p)"

subsection \<open>The sliders of the page\<close>

text \<open>
  The last four lines of the script create the sliders of the demo page; each selector
  is taken to match an element of the page.
\<close>

definition slidy_0 :: "(error + slidy) option" where
  "slidy_0 = Slidy (Some ''#slidy_0'') True
     \<lparr>min_opt = Some 0, max_opt = Some 100, step_opt = Some 5,
      segmentsCount_opt = None, defaultValue_opt = Some (Array [N 50])\<rparr>"


definition slidy_2 :: "(error + slidy) option" where
  "slidy_2 = Slidy (Some ''#slidy_2'') True
     \<lparr>min_opt = Some 0, max_opt = Some 250, step_opt = None,
      segmentsCount_opt = None, defaultValue_opt = Some (Array [N 50, N 80])\<rparr>"


text \<open>
  An event handled by a slider that was constructed, or that handled the event before
  it, without an error; the values such a slider stores, and the boundary values of its
  segments.
\<close>

definition then_on ::
  "(error + slidy) option \<Rightarrow> (slidy \<Rightarrow> error + slidy) \<Rightarrow> (error + slidy) option" where
  "then_on r handler =
     (case r of None \<Rightarrow> None | Some (Inl e) \<Rightarrow> Some (Inl e) | Some (Inr s) \<Rightarrow> Some (handler s))"

definition stored :: "(error + slidy) option \<Rightarrow> jsval list option" where
  "stored r = (case r of Some (Inr s) \<Rightarrow> Some (values s) | _ \<Rightarrow> None)"

definition segments_of :: "(error + slidy) option \<Rightarrow> jsnum list option" where
  "segments_of r = (case r of Some (Inr s) \<Rightarrow> Some (segments s) | _ \<Rightarrow> None)"

subsection \<open>The properties of a normalized value\<close>

text \<open>
  \<open>in_range\<close> is \<^verbatim>\<open>min <= v && v <= max\<close> and \<open>step_aligned\<close> is \<^verbatim>\<open>v % step === 0\<close>, with
  the operators of the script.
\<close>

definition in_range :: "slidy_options \<Rightarrow> jsval \<Rightarrow> bool" where
  "in_range opts v = (js_le (N (opt_min opts)) v \<and> js_le v (N (opt_max opts)))"

definition step_aligned :: "slidy_options \<Rightarrow> jsval \<Rightarrow> bool" where
  "step_aligned opts v = js_strict_eq (js_rem v (N (opt_step opts))) (N 0)"

subsection \<open>The raw value of a drag, as the specification writes it\<close>

text \<open>
  The specification gives the raw value of a drag at the percentage \<open>p\<close> as
  \<open>round(min + (max - min) * p / 100)\<close>. This is that formula in exact arithmetic, to
  be compared with \<open>drag_value\<close>.
\<close>

definition spec_drag_value :: "slidy_options \<Rightarrow> rat \<Rightarrow> int" where
  "spec_drag_value opts p = \<lfloor>opt_min opts + (opt_max opts - opt_min opts) * p / 100 + 1 / 2\<rfloor>"

section \<open>Facts about rounding\<close>

text \<open>
  Rounding to the nearest double is monotone, and it leaves every integer of magnitude
  at most \<open>2 ^ 53\<close> as it is. So a number between two doubles is rounded to a double
  between them.
\<close>

lemma overflow_bound_eq: "overflow_bound = 2 ^ 1024"
  by (simp add: overflow_bound_def)

lemma rne_of_int: "rne (of_int k) = k"
  by (simp add: rne_def)

lemma rne_cases: "rne y = \<lfloor>y\<rfloor> \<or> rne y = \<lfloor>y\<rfloor> + 1"
  by (simp add: rne_def Let_def)

lemma rne_mono:
  assumes "y \<le> z"
  shows "rne y \<le> rne z"
proof (cases "\<lfloor>y\<rfloor> = \<lfloor>z\<rfloor>")
  case True
  with assms have "y - of_int \<lfloor>y\<rfloor> \<le> z - of_int \<lfloor>z\<rfloor>" by simp
  with True show ?thesis by (auto simp add: rne_def Let_def)
next
  case False
  with assms have "\<lfloor>y\<rfloor> < \<lfloor>z\<rfloor>" using floor_mono [OF assms] by linarith
  with rne_cases [of y] rne_cases [of z] show ?thesis by linarith
qed

lemma rne_ge: "of_int k \<le> y \<Longrightarrow> k \<le> rne y"
  using rne_mono [of "of_int k" y] by (simp add: rne_of_int)

lemma rne_le: "y \<le> of_int k \<Longrightarrow> rne y \<le> k"
  using rne_mono [of y "of_int k"] by (simp add: rne_of_int)

lemma two_powi_pos: "0 < (2::rat) powi e"
  by simp

lemma two_powi_add: "(2::rat) powi (a + b) = 2 powi a * 2 powi b"
  by (simp add: power_int_add)

lemma two_powi_mono: "a \<le> b \<Longrightarrow> (2::rat) powi a \<le> 2 powi b"
  by (rule power_int_increasing) simp_all

lemma two_powi_less_exp:
  assumes "(2::rat) powi a \<le> x" and "x < 2 powi b"
  shows "a < b"
proof (rule ccontr)
  assume "\<not> a < b"
  then have "(2::rat) powi b \<le> 2 powi a" by (intro two_powi_mono) simp
  with assms show False by simp
qed

lemma ilog2_bounds:
  assumes "0 < x"
  shows "2 powi ilog2 x \<le> x" and "x < 2 powi (ilog2 x + 1)"
proof -
  obtain p q where pq: "quotient_of x = (p, q)" by (cases "quotient_of x")
  from pq have q: "0 < q" by (rule quotient_of_denom_pos)
  from pq have x: "x = of_int p / of_int q" by (rule quotient_of_div)
  with assms q have p: "0 < p" by (simp add: zero_less_divide_iff)
  define bp where "bp = bitlen p"
  define bq where "bq = bitlen q"
  from bitlen_bounds [OF p] have pb: "2 ^ nat (bp - 1) \<le> p" "p < 2 ^ nat bp"
    by (simp_all add: bp_def)
  from bitlen_bounds [OF q] have qb: "2 ^ nat (bq - 1) \<le> q" "q < 2 ^ nat bq"
    by (simp_all add: bq_def)
  from p have bp1: "1 \<le> bp" unfolding bp_def using bitlen_eq_zero_iff [of p] bitlen_nonneg [of p] by linarith
  from q have bq1: "1 \<le> bq" unfolding bq_def using bitlen_eq_zero_iff [of q] bitlen_nonneg [of q] by linarith
  have P: "(2::rat) powi (bp - 1) \<le> of_int p" "of_int p < (2::rat) powi bp"
  proof -
    from pb(1) have "(of_int (2 ^ nat (bp - 1)) :: rat) \<le> of_int p" by (simp only: of_int_le_iff)
    with bp1 show "(2::rat) powi (bp - 1) \<le> of_int p" by (simp add: power_int_def)
    from pb(2) have "(of_int p :: rat) < of_int (2 ^ nat bp)" by (simp only: of_int_less_iff)
    with bp1 show "of_int p < (2::rat) powi bp" by (simp add: power_int_def)
  qed
  have Q: "(2::rat) powi (bq - 1) \<le> of_int q" "of_int q < (2::rat) powi bq"
  proof -
    from qb(1) have "(of_int (2 ^ nat (bq - 1)) :: rat) \<le> of_int q" by (simp only: of_int_le_iff)
    with bq1 show "(2::rat) powi (bq - 1) \<le> of_int q" by (simp add: power_int_def)
    from qb(2) have "(of_int q :: rat) < of_int (2 ^ nat bq)" by (simp only: of_int_less_iff)
    with bq1 show "of_int q < (2::rat) powi bq" by (simp add: power_int_def)
  qed
  define c where "c = bp - bq"
  have qpos: "(0::rat) < of_int q" using q by simp
  have up: "x < 2 powi (c + 1)"
  proof -
    have "of_int p < (2::rat) powi (c + 1) * 2 powi (bq - 1)"
      using P(2) by (simp add: c_def flip: two_powi_add)
    also have "\<dots> \<le> 2 powi (c + 1) * of_int q"
      using Q(1) by (intro mult_left_mono) simp_all
    finally show ?thesis using qpos by (simp add: x pos_divide_less_eq)
  qed
  have lo: "2 powi (c - 1) < x"
  proof -
    have "(2::rat) powi (c - 1) * of_int q < 2 powi (c - 1) * 2 powi bq"
      using Q(2) by (intro mult_strict_left_mono) simp_all
    also have "\<dots> = 2 powi (bp - 1)" by (simp add: c_def flip: two_powi_add)
    also have "\<dots> \<le> of_int p" by (rule P(1))
    finally show ?thesis using qpos by (simp add: x pos_less_divide_eq)
  qed
  have il: "ilog2 x = (if 2 powi c \<le> x then c else c - 1)"
    by (simp add: ilog2_def pq Let_def c_def bp_def bq_def)
  show "2 powi ilog2 x \<le> x" using lo by (simp add: il)
  show "x < 2 powi (ilog2 x + 1)" using up by (simp add: il)
qed

lemma ilog2_mono:
  assumes "0 < x" and "x \<le> y"
  shows "ilog2 x \<le> ilog2 y"
proof -
  from assms have y: "0 < y" by simp
  from ilog2_bounds(1) [OF assms(1)] assms(2) have "2 powi ilog2 x \<le> y" by simp
  from this ilog2_bounds(2) [OF y] have "ilog2 x < ilog2 y + 1" by (rule two_powi_less_exp)
  then show ?thesis by simp
qed

lemma expo_mono: "0 < x \<Longrightarrow> x \<le> y \<Longrightarrow> expo x \<le> expo y"
  using ilog2_mono [of x y] by (simp add: expo_def)

lemma rd_pos_nonneg: "0 \<le> x \<Longrightarrow> 0 \<le> rd_pos x"
proof -
  assume "0 \<le> x"
  then have "0 \<le> x / 2 powi expo x" by simp
  then have "0 \<le> rne (x / 2 powi expo x)" using rne_ge [of 0] by simp
  then show ?thesis by (simp add: rd_pos_def)
qed

lemma rd_pos_mono:
  assumes "0 \<le> x" and "x \<le> y"
  shows "rd_pos x \<le> rd_pos y"
proof (cases "x = 0")
  case True
  with assms rd_pos_nonneg [of y] show ?thesis by (simp add: rd_pos_def)
next
  case False
  with assms have x: "0 < x" and y: "0 < y" by simp_all
  define ex where "ex = expo x"
  define ey where "ey = expo y"
  have le: "ex \<le> ey" unfolding ex_def ey_def using x assms(2) by (rule expo_mono)
  have rx: "rd_pos x = of_int (rne (x / 2 powi ex)) * 2 powi ex"
    using x by (simp add: rd_pos_def ex_def)
  have ry: "rd_pos y = of_int (rne (y / 2 powi ey)) * 2 powi ey"
    using y by (simp add: rd_pos_def ey_def)
  show ?thesis
  proof (cases "ex = ey")
    case True
    from assms(2) have "x / 2 powi ey \<le> y / 2 powi ey"
      by (simp add: divide_right_mono)
    then have "rne (x / 2 powi ey) \<le> rne (y / 2 powi ey)" by (rule rne_mono)
    then show ?thesis unfolding rx ry True by (simp add: mult_right_mono)
  next
    case False
    with le have lt: "ex + 1 \<le> ey" by simp
    have "ilog2 x - 52 \<le> ex" by (simp add: ex_def expo_def)
    then have "ilog2 x + 1 \<le> ex + 53" by simp
    then have "(2::rat) powi (ilog2 x + 1) \<le> 2 powi (ex + 53)" by (rule two_powi_mono)
    with ilog2_bounds(2) [OF x] have "x < 2 powi (ex + 53)" by simp
    then have "x < 2 powi 53 * 2 powi ex" by (simp add: two_powi_add mult.commute)
    then have "x / 2 powi ex \<le> of_int (2 ^ 53)"
      by (simp add: pos_divide_le_eq)
    then have "rne (x / 2 powi ex) \<le> 2 ^ 53" by (rule rne_le)
    then have "(of_int (rne (x / 2 powi ex)) :: rat) \<le> of_int (2 ^ 53)"
      by (simp only: of_int_le_iff)
    then have "rd_pos x \<le> of_int (2 ^ 53) * 2 powi ex"
      unfolding rx by (intro mult_right_mono) simp_all
    also have "\<dots> = 2 powi (ex + 53)" by (simp add: two_powi_add mult.commute)
    also have "\<dots> \<le> 2 powi (ey + 52)" using lt by (intro two_powi_mono) simp
    finally have upper: "rd_pos x \<le> 2 powi (ey + 52)" .
    have "- 1074 \<le> ex" by (simp add: ex_def expo_def)
    with lt have "ey \<noteq> - 1074" by simp
    then have "ey = ilog2 y - 52" by (auto simp add: ey_def expo_def max_def split: if_splits)
    then have "ilog2 y = ey + 52" by simp
    with ilog2_bounds(1) [OF y] have "2 powi (ey + 52) \<le> y" by simp
    then have "2 powi 52 * 2 powi ey \<le> y" by (simp add: two_powi_add mult.commute)
    then have "of_int (2 ^ 52) \<le> y / 2 powi ey"
      by (simp add: pos_le_divide_eq)
    then have "2 ^ 52 \<le> rne (y / 2 powi ey)" by (rule rne_ge)
    then have "(of_int (2 ^ 52) :: rat) \<le> of_int (rne (y / 2 powi ey))"
      by (simp only: of_int_le_iff)
    then have "of_int (2 ^ 52) * 2 powi ey \<le> rd_pos y"
      unfolding ry by (intro mult_right_mono) simp_all
    then have "2 powi (ey + 52) \<le> rd_pos y" by (simp add: two_powi_add mult.commute)
    with upper show ?thesis by simp
  qed
qed

lemma rd_mono:
  assumes "x \<le> y"
  shows "rd x \<le> rd y"
proof -
  consider "0 \<le> x" | "x < 0" "y < 0" | "x < 0" "0 \<le> y" by linarith
  then show ?thesis
  proof cases
    case 1
    with assms show ?thesis by (simp add: rd_def rd_pos_mono)
  next
    case 2
    with assms have "rd_pos (- y) \<le> rd_pos (- x)" by (intro rd_pos_mono) simp_all
    with 2 show ?thesis by (simp add: rd_def)
  next
    case 3
    with rd_pos_nonneg [of "- x"] rd_pos_nonneg [of y] show ?thesis by (simp add: rd_def)
  qed
qed

lemma rd_pos_exact:
  assumes "0 < x" and "x / 2 powi expo x = of_int m"
  shows "rd_pos x = x"
proof -
  from assms(2) have "rne (x / 2 powi expo x) = m" by (simp add: rne_of_int)
  moreover from assms(2) have "x = of_int m * 2 powi expo x" by (simp add: field_simps)
  ultimately show ?thesis using assms(1) by (simp add: rd_pos_def)
qed

lemma two_powi_neg_div: "e \<le> 0 \<Longrightarrow> x / (2::rat) powi e = x * 2 ^ nat (- e)"
proof -
  assume "e \<le> 0"
  then have "(2::rat) powi (- e) = 2 ^ nat (- e)" by (simp add: power_int_def)
  moreover have "x / (2::rat) powi e = x * 2 powi (- e)"
    by (simp add: power_int_minus field_simps)
  ultimately show ?thesis by simp
qed

lemma rd_pos_int:
  assumes "0 < k" and "k \<le> 2 ^ 53"
  shows "rd_pos (of_int k) = of_int k"
proof -
  let ?x = "of_int k :: rat"
  have x: "0 < ?x" using assms by simp
  from assms(2) have "?x \<le> of_int (2 ^ 53)" by (simp only: of_int_le_iff)
  then have xle: "?x \<le> 2 powi 53" by simp
  show ?thesis
  proof (cases "expo ?x \<le> 0")
    case True
    then have "?x / 2 powi expo ?x = of_int (k * 2 ^ nat (- expo ?x))"
      by (simp add: two_powi_neg_div)
    with x show ?thesis by (rule rd_pos_exact)
  next
    case False
    then have "53 \<le> ilog2 ?x" by (simp add: expo_def)
    then have "(2::rat) powi 53 \<le> 2 powi ilog2 ?x" by (rule two_powi_mono)
    with ilog2_bounds(1) [OF x] xle have xeq: "?x = 2 powi 53" by simp
    have "ilog2 ?x < 54"
    proof (rule ccontr)
      assume "\<not> ilog2 ?x < 54"
      then have "(2::rat) powi 54 \<le> 2 powi ilog2 ?x" by (intro two_powi_mono) simp
      with ilog2_bounds(1) [OF x] xeq show False by simp
    qed
    with \<open>53 \<le> ilog2 ?x\<close> have "expo ?x = 1" by (simp add: expo_def)
    with xeq have "?x / 2 powi expo ?x = of_int (2 ^ 52)" by simp
    with x show ?thesis by (rule rd_pos_exact)
  qed
qed

lemma rd_int:
  assumes "\<bar>k\<bar> \<le> 2 ^ 53"
  shows "rd (of_int k) = of_int k"
proof -
  consider "k = 0" | "0 < k" | "k < 0" by linarith
  then show ?thesis
  proof cases
    case 1
    then show ?thesis by (simp add: rd_def rd_pos_def)
  next
    case 2
    with assms show ?thesis by (simp add: rd_def rd_pos_int)
  next
    case 3
    with assms have "rd_pos (of_int (- k)) = of_int (- k)" by (intro rd_pos_int) simp_all
    with 3 show ?thesis by (simp add: rd_def)
  qed
qed

lemma fl_Fin_iff: "fl x = Fin r \<longleftrightarrow> rd x = r \<and> - overflow_bound < r \<and> r < overflow_bound"
  by (auto simp add: fl_def Let_def)

lemma fl_int:
  assumes "\<bar>k\<bar> \<le> 2 ^ 53"
  shows "fl (of_int k) = Fin (of_int k)"
proof -
  from assms have "\<bar>of_int k :: rat\<bar> \<le> of_int (2 ^ 53)"
    by (simp only: of_int_le_iff flip: of_int_abs)
  then have "- overflow_bound < (of_int k :: rat) \<and> (of_int k :: rat) < overflow_bound"
    by (simp add: overflow_bound_def abs_le_iff)
  with rd_int [OF assms] show ?thesis by (simp add: fl_Fin_iff)
qed

lemma fl_between:
  assumes "fl lo = Fin a" and "fl hi = Fin b" and "lo \<le> x" and "x \<le> hi"
  shows "\<exists>r. fl x = Fin r \<and> a \<le> r \<and> r \<le> b"
proof -
  from assms(1) have a: "rd lo = a" "- overflow_bound < a" by (simp_all add: fl_Fin_iff)
  from assms(2) have b: "rd hi = b" "b < overflow_bound" by (simp_all add: fl_Fin_iff)
  from rd_mono [OF assms(3)] rd_mono [OF assms(4)] a b
  have "a \<le> rd x" "rd x \<le> b" by simp_all
  with a b show ?thesis by (simp add: fl_Fin_iff)
qed

text \<open>
  Rounding is evaluated on integers: the logarithm by a comparison of integers, the
  significand by an integer division.
\<close>

lemma rne_frac:
  assumes "0 < b"
  shows "rne (of_int a / of_int b) = rne_frac a b"
proof -
  have f: "\<lfloor>(of_int a / of_int b :: rat)\<rfloor> = a div b"
    by (simp add: floor_divide_of_int_eq)
  have bpos: "(0::rat) < of_int b" using assms by simp
  have "(of_int (a div b) * of_int b + of_int (a mod b) :: rat) = of_int (a div b * b + a mod b)"
    by (simp only: of_int_add of_int_mult)
  also have "\<dots> = of_int a" by (simp only: div_mult_mod_eq)
  finally have "(of_int a / of_int b :: rat) = of_int (a div b) + of_int (a mod b) / of_int b"
    using bpos by (simp add: field_simps)
  then have d: "(of_int a / of_int b :: rat) - of_int (a div b) = of_int (a mod b) / of_int b"
    by simp
  have lt: "(of_int (a mod b) / of_int b :: rat) < 1 / 2 \<longleftrightarrow> 2 * (a mod b) < b"
  proof -
    have "(of_int (a mod b) / of_int b :: rat) < 1 / 2 \<longleftrightarrow> (of_int (2 * (a mod b)) :: rat) < of_int b"
      using bpos by (simp add: field_simps)
    then show ?thesis by (simp only: of_int_less_iff)
  qed
  have gt: "(1 / 2 :: rat) < of_int (a mod b) / of_int b \<longleftrightarrow> b < 2 * (a mod b)"
  proof -
    have "(1 / 2 :: rat) < of_int (a mod b) / of_int b \<longleftrightarrow> (of_int b :: rat) < of_int (2 * (a mod b))"
      using bpos by (simp add: field_simps)
    then show ?thesis by (simp only: of_int_less_iff)
  qed
  show ?thesis
    unfolding rne_def rne_frac_def Let_def f d lt gt ..
qed

lemma two_powi_nat: "0 \<le> e \<Longrightarrow> (2::rat) powi e = of_int (2 ^ nat e)"
  by (simp add: power_int_def)

lemma two_powi_neg: "e < 0 \<Longrightarrow> (2::rat) powi e = 1 / of_int (2 ^ nat (- e))"
  by (simp add: power_int_def field_simps)

lemma ilog2_code [code]:
  "ilog2 x = (let (p, q) = quotient_of x; c = bitlen p - bitlen q
              in if (if 0 \<le> c then 2 ^ nat c * q \<le> p else q \<le> p * 2 ^ nat (- c))
                 then c else c - 1)"
proof -
  obtain p q where pq: "quotient_of x = (p, q)" by (cases "quotient_of x")
  from pq have q: "0 < q" by (rule quotient_of_denom_pos)
  then have qpos: "(0::rat) < of_int q" by simp
  from pq have x: "x = of_int p / of_int q" by (rule quotient_of_div)
  define c where "c = bitlen p - bitlen q"
  have "(2::rat) powi c \<le> x \<longleftrightarrow> (if 0 \<le> c then 2 ^ nat c * q \<le> p else q \<le> p * 2 ^ nat (- c))"
  proof (cases "0 \<le> c")
    case True
    have "(2::rat) powi c \<le> x \<longleftrightarrow> (of_int (2 ^ nat c * q) :: rat) \<le> of_int p"
      using qpos True by (simp add: x two_powi_nat pos_le_divide_eq)
    with True show ?thesis by (simp only: of_int_le_iff if_True)
  next
    case False
    then have n: "c < 0" by simp
    have "(2::rat) powi c \<le> x \<longleftrightarrow> (of_int q :: rat) \<le> of_int (p * 2 ^ nat (- c))"
      using qpos n by (simp add: x two_powi_neg field_simps)
    with False show ?thesis by (simp only: of_int_le_iff if_False)
  qed
  then show ?thesis by (simp add: ilog2_def pq Let_def c_def)
qed

lemma rd_pos_code [code]:
  "rd_pos x = (if x = 0 then 0 else
      let (p, q) = quotient_of x; e = expo x
      in if 0 \<le> e then of_int (rne_frac p (q * 2 ^ nat e)) * of_int (2 ^ nat e)
         else of_int (rne_frac (p * 2 ^ nat (- e)) q) / of_int (2 ^ nat (- e)))"
proof (cases "x = 0")
  case True
  then show ?thesis by (simp add: rd_pos_def)
next
  case False
  obtain p q where pq: "quotient_of x = (p, q)" by (cases "quotient_of x")
  from pq have q: "0 < q" by (rule quotient_of_denom_pos)
  from pq have x: "x = of_int p / of_int q" by (rule quotient_of_div)
  define e where "e = expo x"
  show ?thesis
  proof (cases "0 \<le> e")
    case True
    have "x / 2 powi e = of_int p / of_int (q * 2 ^ nat e)"
      using True by (simp add: x two_powi_nat)
    moreover have "0 < q * 2 ^ nat e" using q by simp
    ultimately have "rne (x / 2 powi e) = rne_frac p (q * 2 ^ nat e)"
      by (simp only: rne_frac)
    with True False show ?thesis
      by (simp add: rd_pos_def pq Let_def two_powi_nat flip: e_def)
  next
    case neg: False
    then have n: "e < 0" by simp
    have "x / 2 powi e = of_int (p * 2 ^ nat (- e)) / of_int q"
      using n by (simp add: x two_powi_neg)
    then have "rne (x / 2 powi e) = rne_frac (p * 2 ^ nat (- e)) q"
      using q by (simp only: rne_frac)
    with neg n False show ?thesis
      by (simp add: rd_pos_def pq Let_def two_powi_neg flip: e_def)
  qed
qed

section \<open>Facts about the arithmetic\<close>

text \<open>
  The remainder is zero exactly on the integer multiples of the divisor. \<open>normalize_Fin\<close>
  is \<^verbatim>\<open>#normalizeMinMax\<close> on a value whose number is finite. When the quotient of the
  value by the step lies between two integers of magnitude at most \<open>2 ^ 53\<close>, so does
  the rounded quotient.
\<close>

lemma trunc_of_int: "trunc (of_int k) = k"
  by (simp add: trunc_def)

lemma rem_zero_iff:
  assumes "y \<noteq> 0"
  shows "num_rem (Fin x) (Fin y) = Fin 0 \<longleftrightarrow> (\<exists>k::int. x = of_int k * y)"
proof
  assume "num_rem (Fin x) (Fin y) = Fin 0"
  with assms have "x = of_int (trunc (x / y)) * y" by (simp add: mult.commute)
  then show "\<exists>k::int. x = of_int k * y" ..
next
  assume "\<exists>k::int. x = of_int k * y"
  then obtain k :: int where "x = of_int k * y" ..
  with assms show "num_rem (Fin x) (Fin y) = Fin 0"
    by (simp add: trunc_of_int)
qed

lemma js_lt_Num: "js_lt v (Num n) = num_lt (to_number v) n"
  by (cases v) simp_all

lemma js_lt_Num_left: "js_lt (Num n) v = num_lt n (to_number v)"
  by (cases v) simp_all

lemma js_le_Num: "js_le v (Num n) = (to_number v \<noteq> NaN \<and> n \<noteq> NaN \<and> \<not> num_lt n (to_number v))"
  by (cases v) (simp_all add: js_le_def)

lemma js_le_Num_left: "js_le (Num n) v = (to_number v \<noteq> NaN \<and> n \<noteq> NaN \<and> \<not> num_lt (to_number v) n)"
  by (cases v) (auto simp add: js_le_def)

lemma normalize_Fin:
  assumes "to_number v = Fin x" and "opt_step opts \<noteq> 0"
  shows "normalizeMinMax opts v =
    (if x < opt_min opts then N (opt_min opts)
     else if opt_max opts < x then N (opt_max opts)
     else if (\<exists>k::int. x = of_int k * opt_step opts) then v
     else Num (num_mul (num_round (fl (x / opt_step opts))) (Fin (opt_step opts))))"
proof -
  have r: "js_strict_eq (js_rem v (N (opt_step opts))) (N 0) \<longleftrightarrow> (\<exists>k::int. x = of_int k * opt_step opts)"
    using rem_zero_iff [OF assms(2), of x] assms 
    by (auto simp add: js_rem_def simp del: num_rem.simps(1))
  show ?thesis unfolding normalizeMinMax_def r using assms
    by (simp add: js_lt_Num js_gt_def js_lt_Num_left js_mul_def Math_round_def js_div_def)
qed

lemma normalize_PInf: "to_number v = PInf \<Longrightarrow> normalizeMinMax opts v = N (opt_max opts)"
  by (simp add: normalizeMinMax_def js_lt_Num js_gt_def js_lt_Num_left)

lemma normalize_NInf: "to_number v = NInf \<Longrightarrow> normalizeMinMax opts v = N (opt_min opts)"
  by (simp add: normalizeMinMax_def js_lt_Num js_gt_def js_lt_Num_left)

lemma step_aligned_iff:
  assumes "to_number v = Fin x" and "opt_step opts \<noteq> 0"
  shows "step_aligned opts v \<longleftrightarrow> (\<exists>k::int. x = of_int k * opt_step opts)"
  using rem_zero_iff [OF assms(2), of x] assms 
  by (auto simp add: js_rem_def step_aligned_def simp del: num_rem.simps(1))

lemma in_range_Fin:
  "to_number v = Fin x \<Longrightarrow> in_range opts v \<longleftrightarrow> opt_min opts \<le> x \<and> x \<le> opt_max opts"
  by (auto simp add: in_range_def js_le_Num js_le_Num_left)

lemma normalize_fixed:
  assumes "to_number r = Fin x" and "opt_step opts \<noteq> 0"
    and "opt_min opts \<le> x" and "x \<le> opt_max opts"
    and "\<exists>k::int. x = of_int k * opt_step opts"
  shows "normalizeMinMax opts r = r"
  using assms by (simp add: normalize_Fin [OF assms(1,2)])

lemma round_quotient_between:
  assumes a: "\<bar>a\<bar> \<le> 2 ^ 53" and b: "\<bar>b\<bar> \<le> 2 ^ 53" and step: "0 < step"
    and lo: "of_int a * step \<le> x" and hi: "x \<le> of_int b * step"
  shows "\<exists>k. num_round (fl (x / step)) = Fin (of_int k) \<and> a \<le> k \<and> k \<le> b"
proof -
  from step lo have l: "of_int a \<le> x / step" by (simp add: pos_le_divide_eq)
  from step hi have h: "x / step \<le> of_int b" by (simp add: pos_divide_le_eq)
  from fl_between [OF fl_int [OF a] fl_int [OF b] l h]
  obtain q where q: "fl (x / step) = Fin q" "of_int a \<le> q" "q \<le> of_int b" by blast
  from q(2) have "of_int a \<le> q + 1 / 2" by simp
  then have ka: "a \<le> \<lfloor>q + 1 / 2\<rfloor>" by (simp only: le_floor_iff)
  from q(3) have "q + 1 / 2 < of_int (b + 1)" by simp
  then have "\<lfloor>q + 1 / 2\<rfloor> < b + 1" by (simp only: floor_less_iff)
  then have kb: "\<lfloor>q + 1 / 2\<rfloor> \<le> b" by simp
  from q(1) ka kb show ?thesis by simp
qed

lemma scaled_int_le:
  fixes K :: int and s B :: rat
  assumes "1 \<le> s" and "0 \<le> B" and "of_int K * s \<le> B"
  shows "of_int K \<le> B"
proof (cases "K \<le> 0")
  case True
  then have "(of_int K :: rat) \<le> 0" by simp
  with assms(2) show ?thesis by simp
next
  case False
  then have "(0::rat) \<le> of_int K" by simp
  with assms(1) have "of_int K * 1 \<le> of_int K * s" by (intro mult_left_mono)
  with assms(3) show ?thesis by simp
qed

lemma scaled_int_ge:
  fixes K :: int and s B :: rat
  assumes "1 \<le> s" and "0 \<le> B" and "- B \<le> of_int K * s"
  shows "- B \<le> of_int K"
  using scaled_int_le [of s B "- K"] assms by simp

lemma js_strict_eq_refl: "to_number r \<noteq> NaN \<Longrightarrow> js_strict_eq r r"
  by (cases r) simp_all

lemma aligned_quotient:
  assumes step: "0 < opt_step opts"
    and al: "step_aligned opts (N m)"
    and bd: "\<bar>m\<bar> \<le> 2 ^ 53 * opt_step opts"
  shows "\<exists>a::int. m = of_int a * opt_step opts \<and> \<bar>a\<bar> \<le> 2 ^ 53"
proof -
  from step have nz: "opt_step opts \<noteq> 0" by simp
  from al nz obtain a :: int where a: "m = of_int a * opt_step opts"
    by (auto simp add: step_aligned_iff [where x = m])
  from bd step have "\<bar>of_int a :: rat\<bar> * opt_step opts \<le> 2 ^ 53 * opt_step opts"
    by (simp add: a abs_mult)
  with step have "\<bar>of_int a :: rat\<bar> \<le> 2 ^ 53" by simp
  then have "(of_int \<bar>a\<bar> :: rat) \<le> of_int (2 ^ 53)" by simp
  then have "\<bar>a\<bar> \<le> 2 ^ 53" by (simp only: of_int_le_iff)
  with a show ?thesis by blast
qed

lemma rounded_multiple:
  assumes step: "0 < step"
    and a: "\<bar>a\<bar> \<le> 2 ^ 53" and b: "\<bar>b\<bar> \<le> 2 ^ 53"
    and lo: "of_int a * step \<le> x" and hi: "x \<le> of_int b * step"
  shows "\<exists>k. num_mul (num_round (fl (x / step))) (Fin step) = fl (of_int k * step)
           \<and> a \<le> k \<and> k \<le> b"
proof -
  from round_quotient_between [OF a b step lo hi]
  obtain k where "num_round (fl (x / step)) = Fin (of_int k)" "a \<le> k" "k \<le> b" by blast
  then show ?thesis by auto
qed

text \<open>The multiples an integer step reaches from a value inside the bounds are exact.\<close>

lemma integer_step_exact:
  fixes n :: int and x :: rat
  assumes n: "0 < n"
    and up: "x + of_int n \<le> 2 ^ 53"
    and dn: "- (2 ^ 53) \<le> x - of_int n"
  shows "\<exists>k. num_mul (num_round (fl (x / of_int n))) (Fin (of_int n)) = Fin (of_int (k * n))"
proof -
  let ?s = "of_int n :: rat"
  from n have s: "0 < ?s" and s1: "1 \<le> ?s" by simp_all
  define K' where "K' = \<lfloor>x / ?s\<rfloor>"
  define K where "K = \<lceil>x / ?s\<rceil>"
  have lo: "of_int K' * ?s \<le> x"
    using s by (simp add: K'_def pos_le_divide_eq [symmetric])
  have hi: "x \<le> of_int K * ?s"
    using s by (simp add: K_def pos_divide_le_eq [symmetric])
  have "of_int K - 1 < x / ?s" unfolding K_def by linarith
  then have "(of_int K - 1) * ?s < x" using s by (simp only: pos_less_divide_eq)
  then have Ks: "of_int K * ?s < x + ?s" by (simp add: algebra_simps)
  have "x / ?s < of_int K' + 1" unfolding K'_def by linarith
  then have "x < (of_int K' + 1) * ?s" using s by (simp only: pos_divide_less_eq)
  then have K's: "x - ?s < of_int K' * ?s" by (simp add: algebra_simps)
  have xb: "- (2 ^ 53) \<le> x" "x \<le> 2 ^ 53" using up dn s by simp_all
  have Kle: "of_int K \<le> (2 ^ 53 :: rat)"
    using Ks up by (intro scaled_int_le [OF s1]) simp_all
  have Kge: "- (2 ^ 53 :: rat) \<le> of_int K"
    using hi xb by (intro scaled_int_ge [OF s1]) simp_all
  have K'le: "of_int K' \<le> (2 ^ 53 :: rat)"
    using lo xb by (intro scaled_int_le [OF s1]) simp_all
  have K'ge: "- (2 ^ 53 :: rat) \<le> of_int K'"
    using K's dn by (intro scaled_int_ge [OF s1]) simp_all
  from Kle Kge have "\<bar>of_int K :: rat\<bar> \<le> of_int (2 ^ 53)" by (simp add: abs_le_iff)
  then have aK: "\<bar>K\<bar> \<le> 2 ^ 53" by (simp only: of_int_le_iff flip: of_int_abs)
  from K'le K'ge have "\<bar>of_int K' :: rat\<bar> \<le> of_int (2 ^ 53)" by (simp add: abs_le_iff)
  then have aK': "\<bar>K'\<bar> \<le> 2 ^ 53" by (simp only: of_int_le_iff flip: of_int_abs)
  from rounded_multiple [OF s aK' aK lo hi] obtain k where
    k: "num_mul (num_round (fl (x / ?s))) (Fin ?s) = fl (of_int k * ?s)" "K' \<le> k" "k \<le> K"
    by blast
  from k(3) s have "of_int k * ?s \<le> of_int K * ?s" by simp
  with Ks up have ku: "of_int k * ?s \<le> (2 ^ 53 :: rat)" by simp
  from k(2) s have "of_int K' * ?s \<le> of_int k * ?s" by simp
  with K's dn have kl: "- (2 ^ 53 :: rat) \<le> of_int k * ?s" by simp
  from ku kl have "\<bar>of_int (k * n) :: rat\<bar> \<le> of_int (2 ^ 53)" by (simp add: abs_le_iff)
  then have "\<bar>k * n\<bar> \<le> 2 ^ 53" by (simp only: of_int_le_iff flip: of_int_abs)
  from fl_int [OF this] k(1) show ?thesis by (auto simp add: of_int_mult)
qed

section \<open>Normalization\<close>

text \<open>
  C1 (as amended). Let \<open>min < max\<close> be doubles and the step positive, let \<open>min\<close> and \<open>max\<close>
  be multiples of the step (\<^verbatim>\<open>min % step === 0\<close> and \<^verbatim>\<open>max % step === 0\<close>), and let their
  quotients by the step be at most \<open>2 ^ 53\<close> in magnitude. Then the normalization of
  every proposed value whose number is not \<open>NaN\<close> lies in \<open>[min, max]\<close>.
\<close>

theorem normalize_in_range:
  assumes bounds: "opt_min opts < opt_max opts"
    and step: "0 < opt_step opts"
    and dmin: "is_double (opt_min opts)"
    and dmax: "is_double (opt_max opts)"
    and amin: "step_aligned opts (N (opt_min opts))"
    and amax: "step_aligned opts (N (opt_max opts))"
    and qmin: "\<bar>opt_min opts\<bar> \<le> 2 ^ 53 * opt_step opts"
    and qmax: "\<bar>opt_max opts\<bar> \<le> 2 ^ 53 * opt_step opts"
    and v: "to_number v \<noteq> NaN"
  shows "in_range opts (normalizeMinMax opts v)"
proof -
  from step have nz: "opt_step opts \<noteq> 0" by simp
  from aligned_quotient [OF step amin qmin] obtain a :: int
    where a: "opt_min opts = of_int a * opt_step opts" "\<bar>a\<bar> \<le> 2 ^ 53" by blast
  from aligned_quotient [OF step amax qmax] obtain b :: int
    where b: "opt_max opts = of_int b * opt_step opts" "\<bar>b\<bar> \<le> 2 ^ 53" by blast
  from dmin have fmin: "fl (opt_min opts) = Fin (opt_min opts)" by (simp add: is_double_def)
  from dmax have fmax: "fl (opt_max opts) = Fin (opt_max opts)" by (simp add: is_double_def)
  show ?thesis
  proof (cases "to_number v")
    case (Fin x)
    show ?thesis
    proof (cases "x < opt_min opts \<or> opt_max opts < x")
      case True
      with bounds show ?thesis
        by (auto simp add: normalize_Fin [OF Fin nz] in_range_Fin [where x = "opt_min opts"]
            in_range_Fin [where x = "opt_max opts"])
    next
      case False
      then have lo: "of_int a * opt_step opts \<le> x" and hi: "x \<le> of_int b * opt_step opts"
        using a b by simp_all
      show ?thesis
      proof (cases "\<exists>k::int. x = of_int k * opt_step opts")
        case True
        with False Fin show ?thesis
          by (simp add: normalize_Fin [OF Fin nz] in_range_Fin [OF Fin])
      next
        case nk: False
        from rounded_multiple [OF step a(2) b(2) lo hi] obtain k where
          k: "num_mul (num_round (fl (x / opt_step opts))) (Fin (opt_step opts))
                = fl (of_int k * opt_step opts)" "a \<le> k" "k \<le> b" by blast
        from k(2) step have l: "opt_min opts \<le> of_int k * opt_step opts"
          by (simp add: a(1))
        from k(3) step have h: "of_int k * opt_step opts \<le> opt_max opts"
          by (simp add: b(1))
        from fl_between [OF fmin fmax l h] obtain r where
          r: "fl (of_int k * opt_step opts) = Fin r" "opt_min opts \<le> r" "r \<le> opt_max opts"
          by blast
        have "normalizeMinMax opts v = N r"
          using False nk k(1) r(1) by (simp add: normalize_Fin [OF Fin nz])
        with r show ?thesis
          by (simp add: in_range_Fin [where x = r])
      qed
    qed
  next
    case PInf
    with bounds show ?thesis
      by (simp add: normalize_PInf in_range_Fin [where x = "opt_max opts"])
  next
    case NInf
    with bounds show ?thesis
      by (simp add: normalize_NInf in_range_Fin [where x = "opt_min opts"])
  next
    case NaN
    with v show ?thesis by simp
  qed
qed

text \<open>
  The theorem at \<open>min = 0\<close>, \<open>max = 1\<close>, \<open>step = 0.25\<close> and the double nearest to 0.3,
  which is normalized to 0.25.
\<close>

theorem normalize_in_range_witness:
  "(0::rat) < 1 \<and> (0::rat) < 1 / 4 \<and> is_double 0 \<and> is_double 1
   \<and> step_aligned \<lparr>opt_min = 0, opt_max = 1, opt_step = 1 / 4, opt_segmentsCount = None\<rparr> (N 0)
   \<and> step_aligned \<lparr>opt_min = 0, opt_max = 1, opt_step = 1 / 4, opt_segmentsCount = None\<rparr> (N 1)
   \<and> normalizeMinMax \<lparr>opt_min = 0, opt_max = 1, opt_step = 1 / 4, opt_segmentsCount = None\<rparr>
        (N (5404319552844595 / 18014398509481984)) = N (1 / 4)
   \<and> in_range \<lparr>opt_min = 0, opt_max = 1, opt_step = 1 / 4, opt_segmentsCount = None\<rparr>
        (normalizeMinMax \<lparr>opt_min = 0, opt_max = 1, opt_step = 1 / 4, opt_segmentsCount = None\<rparr>
          (N (5404319552844595 / 18014398509481984)))"
proof -
  let ?c = "\<lparr>opt_min = 0, opt_max = 1, opt_step = 1 / 4, opt_segmentsCount = None\<rparr>"
  let ?v = "N (5404319552844595 / 18014398509481984)"
  have h1: "opt_min ?c < opt_max ?c" by simp
  have h2: "0 < opt_step ?c" by simp
  have d0: "is_double 0" by code_simp
  have d1: "is_double 1" by code_simp
  have h3: "is_double (opt_min ?c)" using d0 by simp
  have h4: "is_double (opt_max ?c)" using d1 by simp
  have h5: "step_aligned ?c (N (opt_min ?c))" by code_simp
  have h6: "step_aligned ?c (N (opt_max ?c))" by code_simp
  have h7: "\<bar>opt_min ?c\<bar> \<le> 2 ^ 53 * opt_step ?c" by simp
  have h8: "\<bar>opt_max ?c\<bar> \<le> 2 ^ 53 * opt_step ?c" by simp
  have h9: "to_number ?v \<noteq> NaN" by simp
  have e: "normalizeMinMax ?c ?v = N (1 / 4)" by code_simp
  from normalize_in_range [OF h1 h2 h3 h4 h5 h6 h7 h8 h9] d0 d1 h5 h6 e show ?thesis by simp
qed

text \<open>
  C1 as stated fails: with \<open>min = 0\<close>, \<open>max = 10\<close> and \<open>step = 4\<close> the value 10 is inside
  the bounds, is not a multiple of 4, and is rounded to \<open>3 * 4 = 12\<close>, above \<open>max\<close>.
\<close>

theorem normalize_in_range_counterexample:
  "(0::rat) < 10 \<and> (0::rat) < 4
   \<and> normalizeMinMax \<lparr>opt_min = 0, opt_max = 10, opt_step = 4, opt_segmentsCount = None\<rparr> (N 10) = N 12
   \<and> \<not> in_range \<lparr>opt_min = 0, opt_max = 10, opt_step = 4, opt_segmentsCount = None\<rparr>
        (normalizeMinMax \<lparr>opt_min = 0, opt_max = 10, opt_step = 4, opt_segmentsCount = None\<rparr> (N 10))"
  by code_simp

text \<open>
  C2 (as amended). Let the step be a positive integer, and let the bounds leave room
  for one step below \<open>2 ^ 53\<close> in magnitude: \<open>max + step \<le> 2 ^ 53\<close> and
  \<open>- 2 ^ 53 \<le> min - step\<close>. Then the normalization of a proposed value whose number is
  not \<open>NaN\<close> is a multiple of the step whenever the value is not clamped, and also when
  it is clamped to a bound that is itself a multiple of the step.
\<close>

theorem normalize_step_aligned:
  assumes n: "0 < n" and step: "opt_step opts = of_int n"
    and up: "opt_max opts + opt_step opts \<le> 2 ^ 53"
    and dn: "- (2 ^ 53) \<le> opt_min opts - opt_step opts"
    and v: "to_number v \<noteq> NaN"
    and amin: "js_lt v (N (opt_min opts)) \<longrightarrow> step_aligned opts (N (opt_min opts))"
    and amax: "js_gt v (N (opt_max opts)) \<longrightarrow> step_aligned opts (N (opt_max opts))"
  shows "step_aligned opts (normalizeMinMax opts v)"
proof -
  from n step have nz: "opt_step opts \<noteq> 0" and pos: "0 < opt_step opts" by simp_all
  show ?thesis
  proof (cases "to_number v")
    case (Fin x)
    show ?thesis
    proof (cases "x < opt_min opts \<or> opt_max opts < x")
      case True
      with amin amax Fin show ?thesis
        by (auto simp add: normalize_Fin [OF Fin nz] js_lt_Num js_gt_def js_lt_Num_left)
    next
      case inside: False
      show ?thesis
      proof (cases "\<exists>k::int. x = of_int k * opt_step opts")
        case True
        with inside show ?thesis
          by (simp add: normalize_Fin [OF Fin nz] step_aligned_iff [OF Fin nz])
      next
        case nk: False
        from inside up have u: "x + of_int n \<le> 2 ^ 53" by (simp add: step)
        from inside dn have d: "- (2 ^ 53) \<le> x - of_int n" by (simp add: step)
        from integer_step_exact [OF n u d] obtain k where
          "num_mul (num_round (fl (x / of_int n))) (Fin (of_int n)) = Fin (of_int (k * n))"
          by blast
        then have eq: "normalizeMinMax opts v = N (of_int (k * n))"
          using inside nk by (simp add: normalize_Fin [OF Fin nz] step)
        have "step_aligned opts (N (of_int (k * n)))"
          using nz by (auto simp add: step_aligned_iff [where x = "of_int (k * n)"] step)
        with eq show ?thesis by simp
      qed
    qed
  next
    case PInf
    with amax show ?thesis
      by (simp add: normalize_PInf js_gt_def js_lt_Num_left)
  next
    case NInf
    with amin show ?thesis
      by (simp add: normalize_NInf js_lt_Num)
  next
    case NaN
    with v show ?thesis by simp
  qed
qed

text \<open>
  The theorem at \<open>min = 0\<close>, \<open>max = 12\<close> (not a multiple of the step 5), for the value -3,
  which is clamped to \<open>min\<close>, and for the value 12, which is not clamped and becomes 10.
\<close>

theorem normalize_step_aligned_witness:
  "(0::int) < 5 \<and> (12::rat) + 5 \<le> 2 ^ 53 \<and> - (2 ^ 53) \<le> (0::rat) - 5
   \<and> js_lt (N (- 3)) (N 0)
   \<and> step_aligned \<lparr>opt_min = 0, opt_max = 12, opt_step = 5, opt_segmentsCount = None\<rparr> (N 0)
   \<and> \<not> js_gt (N (- 3)) (N 12)
   \<and> step_aligned \<lparr>opt_min = 0, opt_max = 12, opt_step = 5, opt_segmentsCount = None\<rparr>
        (normalizeMinMax \<lparr>opt_min = 0, opt_max = 12, opt_step = 5, opt_segmentsCount = None\<rparr> (N (- 3)))
   \<and> normalizeMinMax \<lparr>opt_min = 0, opt_max = 12, opt_step = 5, opt_segmentsCount = None\<rparr> (N 12) = N 10
   \<and> step_aligned \<lparr>opt_min = 0, opt_max = 12, opt_step = 5, opt_segmentsCount = None\<rparr>
        (normalizeMinMax \<lparr>opt_min = 0, opt_max = 12, opt_step = 5, opt_segmentsCount = None\<rparr> (N 12))"
proof -
  let ?c = "\<lparr>opt_min = 0, opt_max = 12, opt_step = 5, opt_segmentsCount = None\<rparr>"
  have n: "(0::int) < 5" by simp
  have s: "opt_step ?c = of_int 5" by simp
  have up: "opt_max ?c + opt_step ?c \<le> 2 ^ 53" by simp
  have dn: "- (2 ^ 53) \<le> opt_min ?c - opt_step ?c" by simp
  have h2: "to_number (N (- 3)) \<noteq> NaN" by simp
  have h2': "to_number (N 12) \<noteq> NaN" by simp
  have a: "step_aligned ?c (N 0)" by code_simp
  have l: "js_lt (N (- 3)) (N 0)" by simp
  have g: "\<not> js_gt (N (- 3)) (N 12)" by (simp add: js_gt_def)
  have h3: "js_lt (N (- 3)) (N (opt_min ?c)) \<longrightarrow> step_aligned ?c (N (opt_min ?c))"
    using a by simp
  have h4: "js_gt (N (- 3)) (N (opt_max ?c)) \<longrightarrow> step_aligned ?c (N (opt_max ?c))"
    using g by simp
  have h3': "js_lt (N 12) (N (opt_min ?c)) \<longrightarrow> step_aligned ?c (N (opt_min ?c))"
    using a by simp
  have h4': "js_gt (N 12) (N (opt_max ?c)) \<longrightarrow> step_aligned ?c (N (opt_max ?c))"
    by (simp add: js_gt_def)
  have e: "normalizeMinMax ?c (N 12) = N 10" by code_simp
  from normalize_step_aligned [OF n s up dn h2 h3 h4]
       normalize_step_aligned [OF n s up dn h2' h3' h4'] a l g e
  show ?thesis by simp
qed

text \<open>
  C2 as stated fails: with \<open>min = 1\<close>, \<open>max = 10\<close> and \<open>step = 5\<close> the value 0 is clamped
  to \<open>min = 1\<close>, and \<^verbatim>\<open>1 % 5\<close> is 1.
\<close>

theorem normalize_step_aligned_counterexample:
  "(1::rat) < 10 \<and> (0::rat) < 5
   \<and> normalizeMinMax \<lparr>opt_min = 1, opt_max = 10, opt_step = 5, opt_segmentsCount = None\<rparr> (N 0) = N 1
   \<and> js_rem (N 1) (N 5) = N 1
   \<and> \<not> step_aligned \<lparr>opt_min = 1, opt_max = 10, opt_step = 5, opt_segmentsCount = None\<rparr>
        (normalizeMinMax \<lparr>opt_min = 1, opt_max = 10, opt_step = 5, opt_segmentsCount = None\<rparr> (N 0))"
  by code_simp

text \<open>
  C3 (as amended). Let the step be a positive integer and \<open>min < max\<close> multiples of the
  step of magnitude at most \<open>2 ^ 53\<close>. Then for every proposed value whose number is not
  \<open>NaN\<close>, normalizing twice gives what normalizing once gives, and the two results are
  equal by \<^verbatim>\<open>===\<close>.
\<close>

theorem normalize_idempotent:
  assumes bounds: "opt_min opts < opt_max opts"
    and n: "0 < n" and step: "opt_step opts = of_int n"
    and amin: "step_aligned opts (N (opt_min opts))"
    and amax: "step_aligned opts (N (opt_max opts))"
    and bmin: "- (2 ^ 53) \<le> opt_min opts"
    and bmax: "opt_max opts \<le> 2 ^ 53"
    and v: "to_number v \<noteq> NaN"
  shows "normalizeMinMax opts (normalizeMinMax opts v) = normalizeMinMax opts v
         \<and> js_strict_eq (normalizeMinMax opts (normalizeMinMax opts v)) (normalizeMinMax opts v)"
proof -
  from n step have nz: "opt_step opts \<noteq> 0" and pos: "0 < opt_step opts"
    and s1: "1 \<le> opt_step opts" by simp_all
  from bounds bmin bmax have am: "\<bar>opt_min opts\<bar> \<le> 2 ^ 53" and ax: "\<bar>opt_max opts\<bar> \<le> 2 ^ 53"
    by (simp_all add: abs_le_iff)
  from am s1 have "\<bar>opt_min opts\<bar> \<le> 2 ^ 53 * 1" by simp
  also have "\<dots> \<le> 2 ^ 53 * opt_step opts" using s1 by (intro mult_left_mono) simp_all
  finally have qmin: "\<bar>opt_min opts\<bar> \<le> 2 ^ 53 * opt_step opts" .
  from ax s1 have "\<bar>opt_max opts\<bar> \<le> 2 ^ 53 * 1" by simp
  also have "\<dots> \<le> 2 ^ 53 * opt_step opts" using s1 by (intro mult_left_mono) simp_all
  finally have qmax: "\<bar>opt_max opts\<bar> \<le> 2 ^ 53 * opt_step opts" .
  from aligned_quotient [OF pos amin qmin] obtain a :: int
    where a: "opt_min opts = of_int a * opt_step opts" "\<bar>a\<bar> \<le> 2 ^ 53" by blast
  from aligned_quotient [OF pos amax qmax] obtain b :: int
    where b: "opt_max opts = of_int b * opt_step opts" "\<bar>b\<bar> \<le> 2 ^ 53" by blast
  have "\<exists>x. to_number (normalizeMinMax opts v) = Fin x \<and> opt_min opts \<le> x \<and> x \<le> opt_max opts
          \<and> (\<exists>k::int. x = of_int k * opt_step opts)"
  proof (cases "to_number v")
    case (Fin x)
    show ?thesis
    proof (cases "x < opt_min opts \<or> opt_max opts < x")
      case True
      with bounds a(1) b(1) show ?thesis
        by (auto simp add: normalize_Fin [OF Fin nz])
    next
      case inside: False
      show ?thesis
      proof (cases "\<exists>k::int. x = of_int k * opt_step opts")
        case True
        with inside Fin show ?thesis
          by (simp add: normalize_Fin [OF Fin nz])
      next
        case nk: False
        from inside have lo: "of_int a * opt_step opts \<le> x" and hi: "x \<le> of_int b * opt_step opts"
          using a b by simp_all
        from rounded_multiple [OF pos a(2) b(2) lo hi] obtain k where
          k: "num_mul (num_round (fl (x / opt_step opts))) (Fin (opt_step opts))
                = fl (of_int k * opt_step opts)" "a \<le> k" "k \<le> b" by blast
        from k(2) pos have l: "opt_min opts \<le> of_int k * opt_step opts"
          by (simp add: a(1))
        from k(3) pos have h: "of_int k * opt_step opts \<le> opt_max opts"
          by (simp add: b(1))
        from l h bmin bmax have "\<bar>of_int (k * n) :: rat\<bar> \<le> of_int (2 ^ 53)"
          by (simp add: abs_le_iff step)
        then have "\<bar>k * n\<bar> \<le> 2 ^ 53" by (simp only: of_int_le_iff flip: of_int_abs)
        from fl_int [OF this] have "fl (of_int k * opt_step opts) = Fin (of_int k * opt_step opts)"
          by (simp add: step)
        with k(1) have "normalizeMinMax opts v = N (of_int k * opt_step opts)"
          using inside nk by (simp add: normalize_Fin [OF Fin nz])
        with l h show ?thesis by auto
      qed
    qed
  next
    case PInf
    with bounds b(1) show ?thesis by (auto simp add: normalize_PInf)
  next
    case NInf
    with bounds a(1) show ?thesis by (auto simp add: normalize_NInf)
  next
    case NaN
    with v show ?thesis by simp
  qed
  then obtain x where x: "to_number (normalizeMinMax opts v) = Fin x"
    "opt_min opts \<le> x" "x \<le> opt_max opts" "\<exists>k::int. x = of_int k * opt_step opts" by blast
  from normalize_fixed [OF x(1) nz x(2) x(3) x(4)]
  have eq: "normalizeMinMax opts (normalizeMinMax opts v) = normalizeMinMax opts v" .
  from x(1) have "js_strict_eq (normalizeMinMax opts v) (normalizeMinMax opts v)"
    by (intro js_strict_eq_refl) simp
  with eq show ?thesis by simp
qed

text \<open>The theorem at the options of the first slider of the page and the value 53.\<close>

theorem normalize_idempotent_witness:
  "(0::rat) < 100 \<and> (0::int) < 5 \<and> - (2 ^ 53) \<le> (0::rat) \<and> (100::rat) \<le> 2 ^ 53
   \<and> step_aligned \<lparr>opt_min = 0, opt_max = 100, opt_step = 5, opt_segmentsCount = None\<rparr> (N 0)
   \<and> step_aligned \<lparr>opt_min = 0, opt_max = 100, opt_step = 5, opt_segmentsCount = None\<rparr> (N 100)
   \<and> normalizeMinMax \<lparr>opt_min = 0, opt_max = 100, opt_step = 5, opt_segmentsCount = None\<rparr> (N 53) = N 55
   \<and> normalizeMinMax \<lparr>opt_min = 0, opt_max = 100, opt_step = 5, opt_segmentsCount = None\<rparr>
        (normalizeMinMax \<lparr>opt_min = 0, opt_max = 100, opt_step = 5, opt_segmentsCount = None\<rparr> (N 53))
      = normalizeMinMax \<lparr>opt_min = 0, opt_max = 100, opt_step = 5, opt_segmentsCount = None\<rparr> (N 53)
   \<and> js_strict_eq
        (normalizeMinMax \<lparr>opt_min = 0, opt_max = 100, opt_step = 5, opt_segmentsCount = None\<rparr>
          (normalizeMinMax \<lparr>opt_min = 0, opt_max = 100, opt_step = 5, opt_segmentsCount = None\<rparr> (N 53)))
        (normalizeMinMax \<lparr>opt_min = 0, opt_max = 100, opt_step = 5, opt_segmentsCount = None\<rparr> (N 53))"
proof -
  let ?c = "\<lparr>opt_min = 0, opt_max = 100, opt_step = 5, opt_segmentsCount = None\<rparr>"
  have h1: "opt_min ?c < opt_max ?c" by simp
  have n: "(0::int) < 5" by simp
  have s: "opt_step ?c = of_int 5" by simp
  have h3: "step_aligned ?c (N (opt_min ?c))" by code_simp
  have h4: "step_aligned ?c (N (opt_max ?c))" by code_simp
  have h5: "- (2 ^ 53) \<le> opt_min ?c" by simp
  have h6: "opt_max ?c \<le> 2 ^ 53" by simp
  have h7: "to_number (N 53) \<noteq> NaN" by simp
  have e: "normalizeMinMax ?c (N 53) = N 55" by code_simp
  from normalize_idempotent [OF h1 n s h3 h4 h5 h6 h7] h3 h4 e show ?thesis by simp
qed

text \<open>
  C3 as stated fails: with \<open>min = 1\<close>, \<open>max = 10\<close> and \<open>step = 5\<close> the value 0 is clamped
  to 1, and 1 is rounded to \<open>0 * 5 = 0\<close>; normalizing again gives 1 once more.
\<close>

theorem normalize_idempotent_counterexample:
  "(1::rat) < 10 \<and> (0::rat) < 5
   \<and> normalizeMinMax \<lparr>opt_min = 1, opt_max = 10, opt_step = 5, opt_segmentsCount = None\<rparr> (N 0) = N 1
   \<and> normalizeMinMax \<lparr>opt_min = 1, opt_max = 10, opt_step = 5, opt_segmentsCount = None\<rparr> (N 1) = N 0
   \<and> normalizeMinMax \<lparr>opt_min = 1, opt_max = 10, opt_step = 5, opt_segmentsCount = None\<rparr>
        (normalizeMinMax \<lparr>opt_min = 1, opt_max = 10, opt_step = 5, opt_segmentsCount = None\<rparr> (N 0))
      \<noteq> normalizeMinMax \<lparr>opt_min = 1, opt_max = 10, opt_step = 5, opt_segmentsCount = None\<rparr> (N 0)"
  by code_simp

section \<open>The slider and its input channels\<close>

text \<open>
  The first and the third slider of the page as their constructors leave them, and the
  options, the values and the mode of the second and the fourth.
\<close>

lemma slidy_0_state:
  "slidy_0 = Some (Inr \<lparr>options = \<lparr>opt_min = 0, opt_max = 100, opt_step = 5, opt_segmentsCount = None\<rparr>,
     values = [N 50], has_max = False, minInput = N 50, maxInput = Str [],
     minButton_left = Some (Fin 50), maxButton_left = None,
     track_min_left = Some (Fin 0), track_max_left = Some (Fin 50), segments = []\<rparr>)"
  by code_simp

lemma slidy_2_state:
  "slidy_2 = Some (Inr \<lparr>options = \<lparr>opt_min = 0, opt_max = 250, opt_step = 1, opt_segmentsCount = None\<rparr>,
     values = [N 50, N 80], has_max = True, minInput = N 50, maxInput = N 80,
     minButton_left = Some (Fin 20), maxButton_left = Some (Fin 32),
     track_min_left = Some (Fin 20), track_max_left = Some (Fin 32), segments = []\<rparr>)"
  by code_simp




text \<open>
  \<^verbatim>\<open>#updateTrack\<close> returns when the second button exists whenever there are two values.
  \<^verbatim>\<open>updateValues\<close> then stores the normalized values, the two of a pair with the greater
  one last.
\<close>

lemma updateTrack_result:
  assumes "length (values s) = 2 \<longrightarrow> has_max s"
  shows "\<exists>s'. updateTrack s = Inr s' \<and> values s' = values s"
  using assms by (simp add: updateTrack_def Let_def)

lemma updateValues_single:
  "\<exists>s'. updateValues s [v] = Inr s' \<and> values s' = [normalizeMinMax (options s) v]"
  by (simp add: updateValues_def updateTrack_def Let_def)

lemma updateValues_pair:
  assumes "has_max s"
  shows "\<exists>s'. updateValues s [a, b] = Inr s'
           \<and> values s' =
               (if js_gt (normalizeMinMax (options s) a) (normalizeMinMax (options s) b)
                then [normalizeMinMax (options s) b, normalizeMinMax (options s) a]
                else [normalizeMinMax (options s) a, normalizeMinMax (options s) b])"
  using assms by (simp add: updateValues_def updateTrack_def Let_def js_index_def)

text \<open>
  Two numbers are stored in order: when neither normalization is \<open>NaN\<close>, the pair that
  \<^verbatim>\<open>updateValues\<close> stores has its smaller number first.
\<close>

lemma normalize_Num: "\<exists>n. normalizeMinMax opts (Num x) = Num n"
  by (simp add: normalizeMinMax_def js_mul_def)

lemma num_order:
  assumes "a \<noteq> NaN" and "b \<noteq> NaN"
  shows "num_lt b a \<Longrightarrow> js_le (Num b) (Num a)"
    and "\<not> num_lt b a \<Longrightarrow> js_le (Num a) (Num b)"
  using assms by (cases a; cases b; simp add: js_le_def)+

lemma updateValues_orders_numbers:
  assumes hm: "has_max s"
    and a: "normalizeMinMax (options s) (Num x) = Num a" "a \<noteq> NaN"
    and b: "normalizeMinMax (options s) (Num y) = Num b" "b \<noteq> NaN"
  shows "\<exists>s'. updateValues s [Num x, Num y] = Inr s'
           \<and> values s' = (if num_lt b a then [Num b, Num a] else [Num a, Num b])
           \<and> js_le (js_index (values s') 0) (js_index (values s') 1)"
  using assms num_order [OF a(2) b(2)]
  by (simp add: updateValues_def updateTrack_def Let_def js_index_def js_gt_def)

text \<open>
  C4, on the text channel. The third slider of the page has \<open>min = 0\<close>, \<open>max = 250\<close> and
  the values \<open>[50, 80]\<close>. The text 90 entered in the lower field is stored as the string
  it is and the pair is swapped to \<open>[80, "90"]\<close>; the text 100 entered next is compared
  with \<open>"90"\<close> as a string, is not the greater one, and the slider stores
  \<open>["100", "90"]\<close>: the first value is the greater number. The number 90 submitted to
  the lower slot gives \<open>[80, 90]\<close>.
\<close>

theorem text_inputs_break_order:
  "stored (then_on slidy_2 (\<lambda>s. minInput_oninput s ''90'')) = Some [N 80, Str ''90'']
   \<and> stored (then_on (then_on slidy_2 (\<lambda>s. minInput_oninput s ''90''))
                      (\<lambda>s. minInput_oninput s ''100'')) = Some [Str ''100'', Str ''90'']
   \<and> to_number (Str ''100'') = Fin 100 \<and> to_number (Str ''90'') = Fin 90
   \<and> \<not> js_gt (Str ''100'') (Str ''90'')
   \<and> stored (then_on slidy_2 (\<lambda>s. updateMin s (N 90))) = Some [N 80, N 90]"
  unfolding slidy_2_state by code_simp

text \<open>
  C5 (as amended). A drag that reports the percentage \<open>p\<close> proposes
  \<^verbatim>\<open>Math.round(min + (max - min) * (p / 100))\<close>, where the quotient, the difference, the
  product and the sum are each rounded to a double. With one value, the slider then
  stores the normalization of that number. With two values it stores the normalization
  of that number, in the place of the value of the dragged button, and the
  normalization of the other value, the greater of the two last. On the first slider
  of the page (\<open>min = 0\<close>, \<open>max = 100\<close>, \<open>step = 5\<close>) the percentage 52, whose raw value is
  52, stores 50, and 53 stores 55.
\<close>

theorem drag_maps_and_normalizes:
  "drag_value (options s) p =
     Math_round (Num (num_add (Fin (opt_min (options s)))
        (num_mul (num_sub (Fin (opt_max (options s))) (Fin (opt_min (options s))))
                 (num_div p (Fin 100)))))
   \<and> (length (values s) = 1 \<longrightarrow>
        (\<exists>s'. createButton_ondrag False s p = Inr s'
           \<and> values s' = [normalizeMinMax (options s) (drag_value (options s) p)]))
   \<and> (has_max s \<and> values s = [x, y] \<longrightarrow>
        (\<exists>s'. createButton_ondrag False s p = Inr s'
           \<and> values s' =
               (if js_gt (normalizeMinMax (options s) (drag_value (options s) p))
                         (normalizeMinMax (options s) y)
                then [normalizeMinMax (options s) y,
                      normalizeMinMax (options s) (drag_value (options s) p)]
                else [normalizeMinMax (options s) (drag_value (options s) p),
                      normalizeMinMax (options s) y]))
        \<and> (\<exists>s'. createButton_ondrag True s p = Inr s'
           \<and> values s' =
               (if js_gt (normalizeMinMax (options s) x)
                         (normalizeMinMax (options s) (drag_value (options s) p))
                then [normalizeMinMax (options s) (drag_value (options s) p),
                      normalizeMinMax (options s) x]
                else [normalizeMinMax (options s) x,
                      normalizeMinMax (options s) (drag_value (options s) p)])))
   \<and> stored (then_on slidy_0 (\<lambda>s. createButton_ondrag False s (Fin 52))) = Some [N 50]
   \<and> stored (then_on slidy_0 (\<lambda>s. createButton_ondrag False s (Fin 53))) = Some [N 55]"
proof -
  let ?raw = "drag_value (options s) p"
  have formula: "drag_value (options s) p =
     Math_round (Num (num_add (Fin (opt_min (options s)))
        (num_mul (num_sub (Fin (opt_max (options s))) (Fin (opt_min (options s))))
                 (num_div p (Fin 100)))))"
    by (simp add: drag_value_def)
  have single: "\<exists>s'. createButton_ondrag False s p = Inr s'
           \<and> values s' = [normalizeMinMax (options s) ?raw]"
    if "length (values s) = 1"
  proof -
    from that obtain z where "values s = [z]"
      by (cases "values s") simp_all
    then show ?thesis
      using updateValues_single [of s ?raw]
      by (simp add: createButton_ondrag_def updateMin_def)
  qed
  have lower: "\<exists>s'. createButton_ondrag False s p = Inr s'
           \<and> values s' =
               (if js_gt (normalizeMinMax (options s) ?raw) (normalizeMinMax (options s) y)
                then [normalizeMinMax (options s) y, normalizeMinMax (options s) ?raw]
                else [normalizeMinMax (options s) ?raw, normalizeMinMax (options s) y])"
    if "has_max s \<and> values s = [x, y]"
    using that updateValues_pair [of s ?raw y]
    by (simp add: createButton_ondrag_def updateMin_def)
  have upper: "\<exists>s'. createButton_ondrag True s p = Inr s'
           \<and> values s' =
               (if js_gt (normalizeMinMax (options s) x) (normalizeMinMax (options s) ?raw)
                then [normalizeMinMax (options s) ?raw, normalizeMinMax (options s) x]
                else [normalizeMinMax (options s) x, normalizeMinMax (options s) ?raw])"
    if "has_max s \<and> values s = [x, y]"
    using that updateValues_pair [of s x ?raw]
    by (simp add: createButton_ondrag_def updateMax_def)
  have s52: "stored (then_on slidy_0 (\<lambda>s. createButton_ondrag False s (Fin 52))) = Some [N 50]"
    unfolding slidy_0_state by code_simp
  have s53: "stored (then_on slidy_0 (\<lambda>s. createButton_ondrag False s (Fin 53))) = Some [N 55]"
    unfolding slidy_0_state by code_simp
  from formula single lower upper s52 s53 show ?thesis by blast
qed

text \<open>
  The theorem at the first slider and the percentage 52.5, whose raw value is 53, and
  at the third slider: the lower button dragged to 36 percent, the raw value 90, and
  the upper button dragged to 10 percent, the raw value 25, both swapping the pair.
\<close>

theorem drag_maps_and_normalizes_witness:
  "stored slidy_0 = Some [N 50] \<and> stored slidy_2 = Some [N 50, N 80]
   \<and> stored (then_on slidy_0 (\<lambda>s. createButton_ondrag False s (Fin (105 / 2)))) = Some [N 55]
   \<and> stored (then_on slidy_2 (\<lambda>s. createButton_ondrag False s (Fin 36))) = Some [N 80, N 90]
   \<and> stored (then_on slidy_2 (\<lambda>s. createButton_ondrag True s (Fin 10))) = Some [N 25, N 50]"
proof -
  let ?s0 = "\<lparr>options = \<lparr>opt_min = 0, opt_max = 100, opt_step = 5, opt_segmentsCount = None\<rparr>,
     values = [N 50], has_max = False, minInput = N 50, maxInput = Str [],
     minButton_left = Some (Fin 50), maxButton_left = None,
     track_min_left = Some (Fin 0), track_max_left = Some (Fin 50), segments = []\<rparr>"
  let ?s2 = "\<lparr>options = \<lparr>opt_min = 0, opt_max = 250, opt_step = 1, opt_segmentsCount = None\<rparr>,
     values = [N 50, N 80], has_max = True, minInput = N 50, maxInput = N 80,
     minButton_left = Some (Fin 20), maxButton_left = Some (Fin 32),
     track_min_left = Some (Fin 20), track_max_left = Some (Fin 32), segments = []\<rparr>"
  have h0: "length (values ?s0) = 1" by simp
  have h2: "has_max ?s2 \<and> values ?s2 = [N 50, N 80]" by simp
  have r0: "normalizeMinMax (options ?s0) (drag_value (options ?s0) (Fin (105 / 2))) = N 55"
    by code_simp
  have r2l: "normalizeMinMax (options ?s2) (drag_value (options ?s2) (Fin 36)) = N 90"
    by code_simp
  have r2u: "normalizeMinMax (options ?s2) (drag_value (options ?s2) (Fin 10)) = N 25"
    by code_simp
  have nx: "normalizeMinMax (options ?s2) (N 50) = N 50" by code_simp
  have ny: "normalizeMinMax (options ?s2) (N 80) = N 80" by code_simp
  from drag_maps_and_normalizes [of ?s0 "Fin (105 / 2)"] h0 r0
  obtain s' where a: "createButton_ondrag False ?s0 (Fin (105 / 2)) = Inr s'" "values s' = [N 55]"
    by auto
  from drag_maps_and_normalizes [of ?s2 "Fin 36" "N 50" "N 80"] h2 r2l ny
  obtain t where b: "createButton_ondrag False ?s2 (Fin 36) = Inr t" "values t = [N 80, N 90]"
    by (auto simp add: js_gt_def)
  from drag_maps_and_normalizes [of ?s2 "Fin 10" "N 50" "N 80"] h2 r2u nx
  obtain u where c: "createButton_ondrag True ?s2 (Fin 10) = Inr u" "values u = [N 25, N 50]"
    by (auto simp add: js_gt_def)
  from a b c show ?thesis
    by (simp add: slidy_0_state slidy_2_state then_on_def stored_def)
qed

text \<open>
  C5 as stated fails. On the third slider of the page (\<open>min = 0\<close>, \<open>max = 250\<close>) a pointer
  at 49 over a button of width 20 gives the offset 29, which in a parent of width 100
  is the percentage \<open>0.29 * 100 = 28.999999999999996\<close>. The script computes
  \<open>250 * (p / 100) = 72.5\<close>, proposes 73 and stores \<open>[73, 80]\<close>, while
  \<open>round(min + (max - min) * p / 100)\<close> is 72, in exact arithmetic and also in doubles
  with the product taken before the quotient.
\<close>

theorem drag_exact_formula_counterexample:
  "currentX (handleMouseMove (handleMouseDown new_Draggable) 49 20) = 29
   \<and> locationPercent (handleMouseMove (handleMouseDown new_Draggable) 49 20) 100
       = Fin (8162774324609023 / 281474976710656)
   \<and> drag_value \<lparr>opt_min = 0, opt_max = 250, opt_step = 1, opt_segmentsCount = None\<rparr>
        (Fin (8162774324609023 / 281474976710656)) = N 73
   \<and> spec_drag_value \<lparr>opt_min = 0, opt_max = 250, opt_step = 1, opt_segmentsCount = None\<rparr>
        (8162774324609023 / 281474976710656) = 72
   \<and> Math_round (Num (num_add (Fin 0)
        (num_div (num_mul (num_sub (Fin 250) (Fin 0)) (Fin (8162774324609023 / 281474976710656)))
                 (Fin 100)))) = N 72
   \<and> stored (then_on slidy_2
        (updatePosition False (handleMouseMove (handleMouseDown new_Draggable) 49 20) 100))
       = Some [N 73, N 80]"
  unfolding slidy_2_state by code_simp

text \<open>
  C6, at a bound that is left to its default. The constructor compares \<open>min\<close> and \<open>max\<close>
  only when the options give both: with \<open>min = 200\<close> alone it builds a slider with
  \<open>min = 200\<close> and the default \<open>max = 100\<close>, while the same bounds given both are refused.
\<close>

theorem inverted_bounds_accepted:
  "map_option (map_sum id options)
     (Slidy (Some ''#slidy'') True
        \<lparr>min_opt = Some 200, max_opt = None, step_opt = None,
         segmentsCount_opt = None, defaultValue_opt = None\<rparr>)
   = Some (Inr \<lparr>opt_min = 200, opt_max = 100, opt_step = 1, opt_segmentsCount = None\<rparr>)
   \<and> Slidy (Some ''#slidy'') True
        \<lparr>min_opt = Some 200, max_opt = Some 100, step_opt = None,
         segmentsCount_opt = None, defaultValue_opt = None\<rparr>
   = Some (Inl (ConfigError ''Slidy: min must be less than max''))"
  by code_simp

text \<open>
  C7, at a text without a digit. On the first slider of the page the text \<open>abc\<close> is
  filtered to the empty string, which is submitted unparsed, stored as it is and
  written back to the text field, while the normalization of the number 0 is the
  number 0.
\<close>

theorem empty_text_stores_string:
  "stored (then_on slidy_0 (\<lambda>s. minInput_oninput s ''abc'')) = Some [Str []]
   \<and> map_option (map_sum id minInput) (then_on slidy_0 (\<lambda>s. minInput_oninput s ''abc''))
       = Some (Inr (Str []))
   \<and> normalizeMinMax \<lparr>opt_min = 0, opt_max = 100, opt_step = 5, opt_segmentsCount = None\<rparr> (N 0) = N 0
   \<and> Str [] \<noteq> N 0"
  unfolding slidy_0_state by code_simp



section \<open>The drag gesture\<close>




section \<open>The upper slot of a slider with one value\<close>

text \<open>
  C10. When the slider stores one value, \<^verbatim>\<open>#updateMax\<close> returns the state it was given:
  the values, the inputs and the style hooks are the same, and neither the
  normalization nor the update of the track has run.
\<close>

theorem updateMax_single_noop:
  "length (values s) = 1 \<Longrightarrow> updateMax s newValue = Inr s"
  by (simp add: updateMax_def)

text \<open>The theorem at the first slider of the page and the proposed value 70.\<close>

theorem updateMax_single_noop_witness:
  "stored slidy_0 = Some [N 50] \<and> then_on slidy_0 (\<lambda>s. updateMax s (N 70)) = slidy_0"
proof -
  let ?s = "\<lparr>options = \<lparr>opt_min = 0, opt_max = 100, opt_step = 5, opt_segmentsCount = None\<rparr>,
     values = [N 50], has_max = False, minInput = N 50, maxInput = Str [],
     minButton_left = Some (Fin 50), maxButton_left = None,
     track_min_left = Some (Fin 0), track_max_left = Some (Fin 50), segments = []\<rparr>"
  have h: "length (values ?s) = 1" by simp
  from updateMax_single_noop [OF h, of "N 70"] show ?thesis
    by (simp add: slidy_0_state then_on_def stored_def)
qed

end
